theory Spec2Isabelle
  imports Main "HOL-Library.Word"
begin

section \<open>rlock: a remote lock kept in an SQL table\<close>

text \<open>
  A shallow embedding of \<^verbatim>\<open>rlock.go\<close>. The Go methods become functions over an
  explicit world: the memory of the calling process (the \<^verbatim>\<open>RLock\<close> objects, by
  address), the lock table of the store, a logical clock, and a script that says what the
  rest of the system does around each call of this process (statements of other clients,
  latency, injected store failures). Go's \<^verbatim>\<open>error\<close> results are values.
\<close>

subsection \<open>Errors and message formatting\<close>

text \<open>
  What the store's driver can return: \<^verbatim>\<open>sql.ErrNoRows\<close>, a
  \<^verbatim>\<open>*mysql.MySQLError\<close> with its number and message, or any other error, known
  by its text.
\<close>

datatype db_error = NoRows | MySQL nat string | Other string

text \<open>
  The errors seen by callers of the package. \<^verbatim>\<open>AcquireTimeoutErr\<close> and
  \<^verbatim>\<open>KeyNotFoundErr\<close> are the package's sentinels, compared by identity;
  \<open>Errorf\<close> is a fresh error made by \<^verbatim>\<open>fmt.Errorf\<close> or
  \<^verbatim>\<open>errors.New\<close>, which is never identical to a sentinel.
\<close>

datatype error =
    AcquireTimeoutErr
  | KeyNotFoundErr
  | ErrNoRows
  | MySQLError nat string
  | Errorf string

fun of_db_error :: "db_error \<Rightarrow> error" where
  "of_db_error NoRows = ErrNoRows"
| "of_db_error (MySQL k m) = MySQLError k m"
| "of_db_error (Other m) = Errorf m"

definition digit_char :: "nat \<Rightarrow> char" where
  "digit_char d = ''0123456789'' ! d"

fun nat_decimal :: "nat \<Rightarrow> string" where
  "nat_decimal k =
     (if k < 10 then [digit_char k] else nat_decimal (k div 10) @ [digit_char (k mod 10)])"

declare nat_decimal.simps [simp del]

text \<open>The verb \<^verbatim>\<open>%d\<close> on an \<^verbatim>\<open>int64\<close>.\<close>

definition int_decimal :: "int \<Rightarrow> string" where
  "int_decimal i = (if i < 0 then ''-'' @ nat_decimal (nat (- i)) else nat_decimal (nat i))"

text \<open>
  The method \<^verbatim>\<open>Error()\<close>: the text of an error, as \<^verbatim>\<open>%v\<close> prints it.
  The texts of the two foreign errors are those of \<^verbatim>\<open>database/sql\<close> and of
  the MySQL driver; no property below depends on them.
\<close>

fun Error :: "error \<Rightarrow> string" where
  "Error AcquireTimeoutErr = ''reached timeout while waiting on lock''"
| "Error KeyNotFoundErr = ''no such lock''"
| "Error ErrNoRows = ''sql: no rows in result set''"
| "Error (MySQLError k m) = ''Error '' @ nat_decimal k @ '': '' @ m"
| "Error (Errorf m) = m"

text \<open>The apostrophe that the messages put around a lock name.\<close>

definition apos :: string where
  "apos = [CHR 0x27]"

subsection \<open>Data model\<close>

text \<open>
  Times are nanoseconds on one clock; a \<^verbatim>\<open>time.Duration\<close> is an
  \<^verbatim>\<open>int64\<close> of nanoseconds.
\<close>

type_synonym time = int
type_synonym Duration = "64 word"

definition PollInterval :: int where
  "PollInterval = 1000000000"

definition MaxAge :: int where
  "MaxAge = 3600 * 1000000000"

record RLock =
  db :: nat
  owner :: string

record Lock =
  rl :: nat
  name :: string
  timeout :: Duration

record LockEntry =
  ID :: int
  Name :: string
  Owner :: string
  InUse :: bool
  LastError :: string
  LastUsed :: time
  CreatedAt :: time

subsection \<open>The statements sent to the store\<close>

text \<open>
  The queries of the package are built from a fixed text and positional arguments. They
  are kept here as syntax trees: the columns assigned and the conjuncts of the
  \<^verbatim>\<open>WHERE\<close> clause, in the order of the text.
\<close>

datatype cond = NameEq string | InUseEq bool | OwnerEq string

datatype assign = SetOwner string | SetInUse bool | SetLastError string

datatype stmt =
    INSERT string string bool
  | UPDATE "assign list" "cond list"
  | DELETE "cond list"

datatype query = SELECT_ALL "cond list" | SELECT_last_error "cond list"

datatype call = Exec stmt | Get query | Sleep int

fun holds :: "cond \<Rightarrow> LockEntry \<Rightarrow> bool" where
  "holds (NameEq s) e = (Name e = s)"
| "holds (InUseEq b) e = (InUse e = b)"
| "holds (OwnerEq s) e = (Owner e = s)"

definition matches :: "cond list \<Rightarrow> LockEntry \<Rightarrow> bool" where
  "matches cs e = list_all (\<lambda>c. holds c e) cs"

fun assign1 :: "LockEntry \<Rightarrow> assign \<Rightarrow> LockEntry" where
  "assign1 e (SetOwner s) = e\<lparr>Owner := s\<rparr>"
| "assign1 e (SetInUse b) = e\<lparr>InUse := b\<rparr>"
| "assign1 e (SetLastError s) = e\<lparr>LastError := s\<rparr>"

definition assigned :: "assign list \<Rightarrow> LockEntry \<Rightarrow> LockEntry" where
  "assigned as e = foldl assign1 e as"

subsection \<open>The world: process memory, the lock table and its surroundings\<close>

text \<open>
  A store call of this process can meet three things: the statement is carried out
  (\<open>Healthy\<close>); the call fails and nothing is carried out (\<open>Fails\<close>); or, for
  \<^verbatim>\<open>Exec\<close>, the statement is carried out but \<^verbatim>\<open>RowsAffected()\<close> of its
  result fails (\<open>CountFails\<close>; a query has no such count and is not affected by it).
\<close>

datatype fault = Healthy | Fails db_error | CountFails db_error

text \<open>
  One entry of the script belongs to one store call of this process: the statements that
  other clients commit before the call's own statement, the time the call takes, and the
  failure it meets. A call that finds the script empty meets a quiet, healthy store.
\<close>

record turn =
  others :: "stmt list"
  elapsed :: nat
  fault :: fault

text \<open>
  \<open>managers\<close> is the memory of the process: the \<^verbatim>\<open>RLock\<close> object at each
  address (a \<^verbatim>\<open>*RLock\<close> is an address). There is one store, which every
  \<^verbatim>\<open>*sqlx.DB\<close> handle reaches: \<open>table\<close> is its lock table and \<open>next_id\<close> the
  next surrogate key. \<open>found_rows\<close> is the connection's
  choice of what an \<^verbatim>\<open>UPDATE\<close> counts as affected: the rows matched, or (the
  default of MySQL) only the rows whose content changed. \<open>trace\<close> records the store
  calls and sleeps of this process, in order.
\<close>

record world =
  managers :: "nat \<Rightarrow> RLock"
  next_manager :: nat
  table :: "LockEntry list"
  next_id :: int
  found_rows :: bool
  clock :: time
  script :: "turn list"
  trace :: "call list"

definition duplicate_entry :: "string \<Rightarrow> db_error" where
  "duplicate_entry s =
     MySQL 1062 (''Duplicate entry '' @ apos @ s @ apos @ '' for key '' @ apos @ ''name'' @ apos)"

text \<open>
  Modelled from the spec: the table definition is not among the sources. A row that an
  \<^verbatim>\<open>UPDATE\<close> changes gets the current time as \<open>last_used\<close> (the spec: \<^emph>\<open>updated whenever
  ownership changes or the lock is released\<close>); a row set to the values it already has is
  left as it is.
\<close>

definition written :: "time \<Rightarrow> assign list \<Rightarrow> LockEntry \<Rightarrow> LockEntry" where
  "written now as e = (if assigned as e = e then e else (assigned as e)\<lparr>LastUsed := now\<rparr>)"

definition counted :: "bool \<Rightarrow> assign list \<Rightarrow> cond list \<Rightarrow> LockEntry \<Rightarrow> bool" where
  "counted fr as cs e = (matches cs e \<and> (fr \<or> assigned as e \<noteq> e))"

text \<open>
  Modelled from the spec: the table definition is not among the sources. \<open>name\<close> is a
  unique key (the spec: \<^emph>\<open>at most one row exists per lock name\<close>), so an \<^verbatim>\<open>INSERT\<close> of a
  name that is present fails with MySQL's error 1062; a new row has an empty
  \<open>last_error\<close> and the current time as \<open>last_used\<close> and \<open>created_at\<close>.
  Names are compared as byte strings. Each statement is atomic and yields the number of
  rows affected; \<^verbatim>\<open>DELETE\<close> is not a statement of the package, it is there for
  what other clients may do.
\<close>

fun run_stmt :: "stmt \<Rightarrow> world \<Rightarrow> (db_error + int) \<times> world" where
  "run_stmt (INSERT s o' b) w =
     (if list_ex (\<lambda>e. Name e = s) (table w) then (Inl (duplicate_entry s), w)
      else (Inr 1,
            w\<lparr>table := table w @
                 [\<lparr>ID = next_id w, Name = s, Owner = o', InUse = b, LastError = [],
                   LastUsed = clock w, CreatedAt = clock w\<rparr>],
              next_id := next_id w + 1\<rparr>))"
| "run_stmt (UPDATE as cs) w =
     (Inr (int (length (filter (counted (found_rows w) as cs) (table w)))),
      w\<lparr>table := map (\<lambda>e. if matches cs e then written (clock w) as e else e) (table w)\<rparr>)"
| "run_stmt (DELETE cs) w =
     (Inr (int (length (filter (matches cs) (table w)))),
      w\<lparr>table := filter (\<lambda>e. \<not> matches cs e) (table w)\<rparr>)"

definition run_others :: "stmt list \<Rightarrow> world \<Rightarrow> world" where
  "run_others qs w = foldl (\<lambda>v q. snd (run_stmt q v)) w qs"

definition next_fault :: "world \<Rightarrow> fault" where
  "next_fault w = (case script w of [] \<Rightarrow> Healthy | t # ts \<Rightarrow> fault t)"

text \<open>The world in which the next statement of this process is carried out.\<close>

definition arrive :: "world \<Rightarrow> world" where
  "arrive w =
     (case script w of
        [] \<Rightarrow> w
      | t # ts \<Rightarrow> run_others (others t) (w\<lparr>clock := clock w + int (elapsed t), script := ts\<rparr>))"

text \<open>
  \<^verbatim>\<open>db.Exec(query, args...)\<close>: an error, or a result whose
  \<^verbatim>\<open>RowsAffected()\<close> is an error or a count.
\<close>

type_synonym Result = "error + int"

definition db_Exec :: "stmt \<Rightarrow> world \<Rightarrow> (error + Result) \<times> world" where
  "db_Exec q w =
     (let f = next_fault w; w1 = (arrive w)\<lparr>trace := trace w @ [Exec q]\<rparr> in
      case f of
        Fails e \<Rightarrow> (Inl (of_db_error e), w1)
      | _ \<Rightarrow>
         (case run_stmt q w1 of
            (Inl e, w2) \<Rightarrow> (Inl (of_db_error e), w2)
          | (Inr k, w2) \<Rightarrow>
              (Inr (case f of CountFails e \<Rightarrow> Inl (of_db_error e) | _ \<Rightarrow> Inr k), w2)))"

fun conds_of :: "query \<Rightarrow> cond list" where
  "conds_of (SELECT_ALL cs) = cs"
| "conds_of (SELECT_last_error cs) = cs"

text \<open>
  \<^verbatim>\<open>db.Get(dest, query, args...)\<close>: the first row of the result set, from which
  the destination takes the selected columns, or \<^verbatim>\<open>sql.ErrNoRows\<close>.
\<close>

definition db_Get :: "query \<Rightarrow> world \<Rightarrow> (error + LockEntry) \<times> world" where
  "db_Get q w =
     (let f = next_fault w; w1 = (arrive w)\<lparr>trace := trace w @ [Get q]\<rparr> in
      case f of
        Fails e \<Rightarrow> (Inl (of_db_error e), w1)
      | _ \<Rightarrow>
         (case filter (matches (conds_of q)) (table w1) of
            [] \<Rightarrow> (Inl ErrNoRows, w1)
          | e # es \<Rightarrow> (Inr e, w1)))"

text \<open>\<^verbatim>\<open>time.Sleep(d)\<close> returns at once when \<open>d\<close> is not positive.\<close>

definition time_Sleep :: "int \<Rightarrow> world \<Rightarrow> world" where
  "time_Sleep d w = w\<lparr>clock := clock w + max d 0, trace := trace w @ [Sleep d]\<rparr>"

text \<open>\<^verbatim>\<open>time.Since(t)\<close>; the subtraction of times saturates at the ends of \<^verbatim>\<open>int64\<close>.\<close>

definition time_Since :: "time \<Rightarrow> world \<Rightarrow> int" where
  "time_Since t w = max (- (2 ^ 63)) (min (2 ^ 63 - 1) (clock w - t))"

text \<open>
  \<^verbatim>\<open>time.NewTimer(d)\<close> is kept as the time at which its channel becomes ready;
  the \<^verbatim>\<open>select\<close> of the poll loop takes the timer's case when the channel is
  ready and the default case otherwise.
\<close>

definition time_NewTimer :: "Duration \<Rightarrow> world \<Rightarrow> time" where
  "time_NewTimer d w = clock w + sint d"

subsection \<open>The owner token\<close>

text \<open>
  The UUID library is outside the package: the outcomes of its generators are parameters.
  A \<^verbatim>\<open>UUID\<close> is sixteen bytes; its \<^verbatim>\<open>String()\<close> is the canonical
  form of 32 hexadecimal digits in five groups.
\<close>

type_synonym UUID = "128 word"

record uuid_lib =
  NewV1 :: "error + UUID"
  NewV4 :: "error + UUID"
  NewV5 :: "UUID \<Rightarrow> string \<Rightarrow> UUID"
  Now_String :: string

definition nsUUID :: UUID where
  "nsUUID = 0x3cd4853fad8f40f98558014dd707b7b4"

definition generateUUID :: "uuid_lib \<Rightarrow> UUID" where
  "generateUUID u =
     (case NewV1 u of
        Inr id1 \<Rightarrow> id1
      | Inl err \<Rightarrow>
         (case NewV4 u of
            Inr id4 \<Rightarrow> id4
          | Inl err' \<Rightarrow> NewV5 u nsUUID (Now_String u)))"

definition hex_char :: "nat \<Rightarrow> char" where
  "hex_char d = ''0123456789abcdef'' ! d"

definition hex_encode :: "8 word list \<Rightarrow> string" where
  "hex_encode bs = concat (map (\<lambda>b. [hex_char (unat (drop_bit 4 b)), hex_char (unat (take_bit 4 b))]) bs)"

definition UUID_bytes :: "UUID \<Rightarrow> 8 word list" where
  "UUID_bytes u = map (\<lambda>i. ucast (drop_bit (8 * (15 - i)) u)) [0..<16]"

definition UUID_String :: "UUID \<Rightarrow> string" where
  "UUID_String u =
     (let b = UUID_bytes u in
      hex_encode (take 4 b) @ ''-'' @ hex_encode (take 2 (drop 4 b)) @ ''-'' @
      hex_encode (take 2 (drop 6 b)) @ ''-'' @ hex_encode (take 2 (drop 8 b)) @ ''-'' @
      hex_encode (drop 10 b))"

subsection \<open>The package\<close>

text \<open>
  A method with a pointer receiver takes the address of its \<^verbatim>\<open>RLock\<close> and reads
  the object in the memory of the world; a \<^verbatim>\<open>*sqlx.DB\<close> is a handle, and nil is
  \<open>None\<close>. A Go result \<^verbatim>\<open>(value, error)\<close> of which exactly one part is set is a
  sum, an \<^verbatim>\<open>error\<close> that may be nil an option. \<^verbatim>\<open>New\<close> puts the new
  manager at the next free address. The method \<^verbatim>\<open>LastError\<close> of the handle is
  \<open>Lock_LastError\<close> here, since \<open>LastError\<close> is already the field of the row.
\<close>

definition New :: "uuid_lib \<Rightarrow> nat option \<Rightarrow> world \<Rightarrow> (error + nat) \<times> world" where
  "New u d w =
     (case d of
        None \<Rightarrow> (Inl (Errorf ''db cannot be nil''), w)
      | Some c \<Rightarrow>
         (Inr (next_manager w),
          w\<lparr>managers := (managers w)
               (next_manager w := \<lparr>db = c, owner = UUID_String (generateUUID u)\<rparr>),
            next_manager := Suc (next_manager w)\<rparr>))"

definition takeover_query :: "bool \<Rightarrow> string \<Rightarrow> string \<Rightarrow> string \<Rightarrow> stmt" where
  "takeover_query force self origName origOwner =
     (if force
      then UPDATE [SetOwner self, SetInUse True] [NameEq origName, OwnerEq origOwner]
      else UPDATE [SetOwner self, SetInUse True]
             [NameEq origName, InUseEq False, OwnerEq origOwner])"

definition takeover :: "nat \<Rightarrow> string \<Rightarrow> string \<Rightarrow> bool \<Rightarrow> world \<Rightarrow> error option \<times> world" where
  "takeover p origName origOwner force w =
     (case db_Exec (takeover_query force (owner (managers w p)) origName origOwner) w of
        (Inl err, w1) \<Rightarrow>
          (Some (Errorf (''unable to take over '' @ apos @ origName @ apos @ '': '' @ Error err)),
           w1)
      | (Inr res, w1) \<Rightarrow>
          (case res of
             Inl err \<Rightarrow>
               (Some (Errorf (''unable to determine rows affected during takeover for '' @
                              apos @ origName @ apos @ '': '' @ Error err)), w1)
           | Inr affected \<Rightarrow>
               if affected > 1
               then (Some (Errorf ''lock takeover affected more than 1 row, possible bug''), w1)
               else if affected = 0
               then (Some (Errorf ''unable to takeover lock, still in use''), w1)
               else (None, w1)))"

definition getExistingByName :: "nat \<Rightarrow> string \<Rightarrow> world \<Rightarrow> (error + LockEntry) \<times> world" where
  "getExistingByName p s w =
     (case db_Get (SELECT_ALL [NameEq s]) w of
        (Inl err, w1) \<Rightarrow> if err = ErrNoRows then (Inl KeyNotFoundErr, w1) else (Inl err, w1)
      | (Inr entry, w1) \<Rightarrow> (Inr entry, w1))"

definition isValid :: "LockEntry option \<Rightarrow> string \<Rightarrow> Duration \<Rightarrow> world \<Rightarrow> error option" where
  "isValid existingLock newLockName newLockTimeout w =
     (case existingLock of
        None \<Rightarrow> Some (Errorf ''existing lock cannot be nil'')
      | Some e \<Rightarrow>
          if \<not> InUse e then Some (Errorf ''existing lock is not in use'')
          else if time_Since (LastUsed e) w > MaxAge then Some (Errorf ''existing lock is stale'')
          else None)"

text \<open>
  The poll loop of \<^verbatim>\<open>Lock\<close>: \<open>fires_at\<close> is the timer made before the loop.
  Every failed takeover, whatever its error, continues the loop.
\<close>

function Lock_poll ::
  "nat \<Rightarrow> string \<Rightarrow> string \<Rightarrow> Duration \<Rightarrow> time \<Rightarrow> world \<Rightarrow> (error + Lock) \<times> world" where
  "Lock_poll p s origOwner acquireTimeout fires_at w =
     (if fires_at \<le> clock w then (Inl AcquireTimeoutErr, w)
      else
        (case takeover p s origOwner False (time_Sleep PollInterval w) of
           (Some err, w1) \<Rightarrow> Lock_poll p s origOwner acquireTimeout fires_at w1
         | (None, w1) \<Rightarrow> (Inr \<lparr>rl = p, name = s, timeout = acquireTimeout\<rparr>, w1)))"
  by pat_completeness auto
termination
proof (relation "measure (\<lambda>(p, s, origOwner, acquireTimeout, fires_at, w). nat (fires_at - clock w))")
  show "wf (measure (\<lambda>(p, s, origOwner, acquireTimeout, fires_at, w). nat (fires_at - clock w)))"
    by simp
next
  fix p :: nat and s origOwner :: string and acquireTimeout :: Duration
    and fires_at :: time and w w1 :: world and res :: "error option" and err :: error
  assume running: "\<not> fires_at \<le> clock w"
    and tk: "(res, w1) = takeover p s origOwner False (time_Sleep PollInterval w)"
    and "res = Some err"
  have stmt_clock: "clock (snd (run_stmt q v)) = clock v" for q v
    by (cases q) simp_all
  have others_clock: "clock (run_others qs v) = clock v" for qs v
    unfolding run_others_def
    by (induction qs arbitrary: v) (simp_all add: stmt_clock)
  have arrive_clock: "clock v \<le> clock (arrive v)" for v
    by (simp add: arrive_def others_clock split: list.split)
  have exec_clock: "clock v \<le> clock (snd (db_Exec q v))" for q v
    using arrive_clock [of v] stmt_clock [of q "(arrive v)\<lparr>trace := trace v @ [Exec q]\<rparr>"]
    by (auto simp: db_Exec_def Let_def split: fault.split prod.split sum.split)
  have "clock v \<le> clock (snd (takeover p s origOwner False v))" for v
    using exec_clock [of v "takeover_query False (owner (managers v p)) s origOwner"]
    by (auto simp: takeover_def split: prod.split sum.split)
  from this [of "time_Sleep PollInterval w"]
  have "clock (time_Sleep PollInterval w) \<le> clock (snd (res, w1))"
    unfolding tk .
  then have "clock w + PollInterval \<le> clock w1"
    by (simp add: time_Sleep_def PollInterval_def)
  with running show
    "((p, s, origOwner, acquireTimeout, fires_at, w1), (p, s, origOwner, acquireTimeout, fires_at, w))
      \<in> measure (\<lambda>(p, s, origOwner, acquireTimeout, fires_at, w). nat (fires_at - clock w))"
    by (simp add: PollInterval_def)
qed

declare Lock_poll.simps [simp del]

definition Lock :: "nat \<Rightarrow> string \<Rightarrow> Duration \<Rightarrow> world \<Rightarrow> (error + Lock) \<times> world" where
  "Lock p s acquireTimeout w =
     (case db_Exec (INSERT s (owner (managers w p)) True) w of
        (Inl err, w1) \<Rightarrow>
          (case err of
             MySQLError k m \<Rightarrow>
               if k = 1062
               then
                 (case getExistingByName p s w1 of
                    (Inl err', w2) \<Rightarrow>
                      if err' = KeyNotFoundErr then (Inl (Errorf ''lock no longer exists''), w2)
                      else (Inl (Errorf (''unable to fetch existing lock: '' @ Error err')), w2)
                  | (Inr existingLock, w2) \<Rightarrow>
                      (case isValid (Some existingLock) s acquireTimeout w2 of
                         Some invalid \<Rightarrow>
                           (case takeover p s (Owner existingLock) True w2 of
                              (Some err', w3) \<Rightarrow>
                                (Inl (Errorf (''unable to take over lock '' @ apos @ s @ apos @
                                              '': '' @ Error err')), w3)
                            | (None, w3) \<Rightarrow>
                                (Inr \<lparr>rl = p, name = s, timeout = acquireTimeout\<rparr>, w3))
                       | None \<Rightarrow>
                           Lock_poll p s (Owner existingLock) acquireTimeout
                             (time_NewTimer acquireTimeout w2) w2))
               else (Inl (Errorf (''unable to insert lock for '' @ apos @ s @ apos @ '': '' @
                                  Error err)), w1)
           | _ \<Rightarrow>
               (Inl (Errorf (''unable to insert lock for '' @ apos @ s @ apos @ '': '' @
                             Error err)), w1))
      | (Inr res, w1) \<Rightarrow> (Inr \<lparr>rl = p, name = s, timeout = acquireTimeout\<rparr>, w1))"

text \<open>
  \<^verbatim>\<open>Unlock\<close> and \<^verbatim>\<open>LastError\<close> are methods of the handle; the handle reaches
  the store and the owner token through its manager. The error that \<^verbatim>\<open>Unlock\<close>
  returns is also logged, which leaves no mark on the world.
\<close>

definition Unlock :: "Lock \<Rightarrow> error option \<Rightarrow> world \<Rightarrow> error option \<times> world" where
  "Unlock l lastError w =
     (let lastErrorStr = (case lastError of None \<Rightarrow> [] | Some e \<Rightarrow> Error e) in
      case db_Exec (UPDATE [SetInUse False, SetLastError lastErrorStr]
                      [NameEq (name l), OwnerEq (owner (managers w (rl l)))]) w of
        (Inl err, w1) \<Rightarrow>
          (Some (Errorf (''unable to unlock '' @ apos @ name l @ apos @ '': '' @ Error err)), w1)
      | (Inr result, w1) \<Rightarrow>
          (case result of
             Inl err \<Rightarrow>
               (Some (Errorf (''unable to determine affected rows after unlock for '' @
                              apos @ name l @ apos @ '': '' @ Error err)), w1)
           | Inr affected \<Rightarrow>
               if affected \<noteq> 1
               then (Some (Errorf (''unexpected number of affected rows after unlock ('' @
                                   int_decimal affected @ '')'')), w1)
               else (None, w1)))"

definition Lock_LastError :: "Lock \<Rightarrow> world \<Rightarrow> error option \<times> world" where
  "Lock_LastError l w =
     (case db_Get (SELECT_last_error [NameEq (name l), OwnerEq (owner (managers w (rl l)))]) w of
        (Inl err, w1) \<Rightarrow>
          (Some (Errorf (''unexpected error while fetching last error state: '' @ Error err)),
           w1)
      | (Inr row, w1) \<Rightarrow>
          if LastError row = [] then (None, w1) else (Some (Errorf (LastError row)), w1))"

subsection \<open>Example worlds\<close>

text \<open>
  Concrete inputs on which the theorems below are run. \<open>demo_uuids\<close> is a library whose
  first generator fails. \<open>quiet\<close> is a store with an empty table, seen by a manager
  whose token is \<open>B\<close>; in \<open>held\<close> a client \<open>A\<close> has the lock \<open>job\<close>, in
  \<open>released\<close> it has given it back with an error, in \<open>abandoned\<close> it has kept it
  for two hours. \<open>both\<close> has a second manager, with the token \<open>A\<close>. In
  \<open>down\<close> the first store call fails; in \<open>stolen\<close> a client \<open>C\<close> takes the
  released lock just before the forced takeover; in \<open>flaky\<close> the first guarded
  takeover meets a broken connection and \<open>A\<close> releases the lock before the second.
  \<open>doubled\<close> is a table that has lost the uniqueness of names.
\<close>

definition demo_uuids :: uuid_lib where
  "demo_uuids =
     \<lparr>NewV1 = Inl (Errorf ''no hardware address''), NewV4 = Inr 0x0123456789abcdef0123456789abcdef,
      NewV5 = (\<lambda>ns s. ns), Now_String = []\<rparr>"

definition quiet :: world where
  "quiet =
     \<lparr>managers = (\<lambda>a. \<lparr>db = 7, owner = ''B''\<rparr>), next_manager = 1, table = [], next_id = 1,
      found_rows = False, clock = 0, script = [], trace = []\<rparr>"

definition job_of_A :: LockEntry where
  "job_of_A =
     \<lparr>ID = 1, Name = ''job'', Owner = ''A'', InUse = True, LastError = [], LastUsed = 0,
      CreatedAt = 0\<rparr>"

definition held :: world where
  "held = quiet\<lparr>table := [job_of_A], next_id := 2\<rparr>"

definition calm :: turn where
  "calm = \<lparr>others = [], elapsed = 0, fault = Healthy\<rparr>"

definition released :: world where
  "released = held\<lparr>table := [job_of_A\<lparr>InUse := False, LastError := ''disk full''\<rparr>]\<rparr>"

definition abandoned :: world where
  "abandoned = held\<lparr>clock := 2 * MaxAge\<rparr>"

definition flaky :: world where
  "flaky =
     held\<lparr>script :=
       [calm, calm, calm\<lparr>fault := Fails (Other ''connection reset'')\<rparr>,
        calm\<lparr>others := [UPDATE [SetInUse False, SetLastError []] [NameEq ''job'', OwnerEq ''A'']]\<rparr>]\<rparr>"

definition down :: world where
  "down = quiet\<lparr>script := [calm\<lparr>fault := Fails (Other ''bad connection'')\<rparr>]\<rparr>"

definition stolen :: world where
  "stolen =
     released\<lparr>script :=
       [calm, calm,
        calm\<lparr>others := [UPDATE [SetOwner ''C'', SetInUse True] [NameEq ''job'', OwnerEq ''A'']]\<rparr>]\<rparr>"

definition doubled :: world where
  "doubled =
     quiet\<lparr>table := [job_of_A\<lparr>InUse := False\<rparr>, job_of_A\<lparr>ID := 2, InUse := False\<rparr>], next_id := 3\<rparr>"

definition both :: world where
  "both = held\<lparr>managers := (managers held)(1 := \<lparr>db = 7, owner = ''A''\<rparr>)\<rparr>"

section \<open>Lemmas\<close>

subsection \<open>What a call leaves untouched\<close>

lemma run_stmt_frame [simp]:
  "managers (snd (run_stmt q v)) = managers v"
  "next_manager (snd (run_stmt q v)) = next_manager v"
  "found_rows (snd (run_stmt q v)) = found_rows v"
  "clock (snd (run_stmt q v)) = clock v"
  "script (snd (run_stmt q v)) = script v"
  "trace (snd (run_stmt q v)) = trace v"
  by (cases q; simp)+

lemma run_others_frame [simp]:
  "managers (run_others qs v) = managers v"
  "next_manager (run_others qs v) = next_manager v"
  "found_rows (run_others qs v) = found_rows v"
  "clock (run_others qs v) = clock v"
  "script (run_others qs v) = script v"
  "trace (run_others qs v) = trace v"
  unfolding run_others_def by (induction qs arbitrary: v; simp)+

lemma arrive_frame [simp]:
  "managers (arrive v) = managers v"
  "next_manager (arrive v) = next_manager v"
  "found_rows (arrive v) = found_rows v"
  "trace (arrive v) = trace v"
  by (simp_all add: arrive_def split: list.split)

lemma arrive_clock: "clock v \<le> clock (arrive v)"
  by (simp add: arrive_def split: list.split)

lemma snd_db_Exec:
  "snd (db_Exec q v) =
     (if (\<exists>e. next_fault v = Fails e) then (arrive v)\<lparr>trace := trace v @ [Exec q]\<rparr>
      else snd (run_stmt q ((arrive v)\<lparr>trace := trace v @ [Exec q]\<rparr>)))"
  by (cases "next_fault v"; cases "run_stmt q ((arrive v)\<lparr>trace := trace v @ [Exec q]\<rparr>)";
      cases "fst (run_stmt q ((arrive v)\<lparr>trace := trace v @ [Exec q]\<rparr>))";
      simp add: db_Exec_def Let_def)

lemma db_Exec_frame [simp]:
  "managers (snd (db_Exec q v)) = managers v"
  "next_manager (snd (db_Exec q v)) = next_manager v"
  "found_rows (snd (db_Exec q v)) = found_rows v"
  "trace (snd (db_Exec q v)) = trace v @ [Exec q]"
  by (simp_all add: snd_db_Exec)

lemma script_db_Exec [simp]: "script (snd (db_Exec q v)) = script (arrive v)"
  by (simp add: snd_db_Exec)

lemma db_Exec_snd: "db_Exec q v = (r, v') \<Longrightarrow> v' = snd (db_Exec q v)"
  by simp

lemma snd_db_Get:
  "snd (db_Get q v) = (arrive v)\<lparr>trace := trace v @ [Get q]\<rparr>"
  by (cases "next_fault v";
      cases "filter (matches (conds_of q)) (table ((arrive v)\<lparr>trace := trace v @ [Get q]\<rparr>))";
      simp add: db_Get_def Let_def)

lemma db_Get_frame [simp]:
  "managers (snd (db_Get q v)) = managers v"
  "next_manager (snd (db_Get q v)) = next_manager v"
  "found_rows (snd (db_Get q v)) = found_rows v"
  "trace (snd (db_Get q v)) = trace v @ [Get q]"
  "table (snd (db_Get q v)) = table (arrive v)"
  by (simp_all add: snd_db_Get)

lemma script_db_Get [simp]: "script (snd (db_Get q v)) = script (arrive v)"
  by (simp add: snd_db_Get)

lemma db_Get_not_sentinel: "fst (db_Get q v) \<noteq> Inl KeyNotFoundErr"
proof -
  have "of_db_error e \<noteq> KeyNotFoundErr" for e
    by (cases e) simp_all
  then show ?thesis
    by (simp add: db_Get_def Let_def split: fault.split list.split)
qed

lemma time_Sleep_frame [simp]:
  "managers (time_Sleep d v) = managers v"
  "next_manager (time_Sleep d v) = next_manager v"
  "found_rows (time_Sleep d v) = found_rows v"
  "table (time_Sleep d v) = table v"
  "script (time_Sleep d v) = script v"
  "trace (time_Sleep d v) = trace v @ [Sleep d]"
  by (simp_all add: time_Sleep_def)

lemma snd_takeover:
  "snd (takeover p s obs force v) =
     snd (db_Exec (takeover_query force (owner (managers v p)) s obs) v)"
  by (simp add: takeover_def split: prod.split sum.split)

lemma takeover_frame [simp]:
  "managers (snd (takeover p s obs force v)) = managers v"
  "next_manager (snd (takeover p s obs force v)) = next_manager v"
  "found_rows (snd (takeover p s obs force v)) = found_rows v"
  "trace (snd (takeover p s obs force v)) =
     trace v @ [Exec (takeover_query force (owner (managers v p)) s obs)]"
  by (simp_all add: snd_takeover)

lemma takeover_clock: "clock v \<le> clock (snd (takeover p s obs force v))"
  using arrive_clock [of v] by (simp add: snd_takeover snd_db_Exec)

lemma snd_getExistingByName:
  "snd (getExistingByName p s v) = snd (db_Get (SELECT_ALL [NameEq s]) v)"
  by (simp add: getExistingByName_def split: prod.split sum.split)

lemma getExistingByName_frame [simp]:
  "managers (snd (getExistingByName p s v)) = managers v"
  "next_manager (snd (getExistingByName p s v)) = next_manager v"
  "found_rows (snd (getExistingByName p s v)) = found_rows v"
  "trace (snd (getExistingByName p s v)) = trace v @ [Get (SELECT_ALL [NameEq s])]"
  by (simp_all add: snd_getExistingByName)

lemma getExistingByName_snd: "getExistingByName p s v = (r, v') \<Longrightarrow> v' = snd (getExistingByName p s v)"
  by simp

lemma snd_Unlock:
  "snd (Unlock l e v) =
     snd (db_Exec (UPDATE [SetInUse False, SetLastError (case e of None \<Rightarrow> [] | Some x \<Rightarrow> Error x)]
                     [NameEq (name l), OwnerEq (owner (managers v (rl l)))]) v)"
  by (simp add: Unlock_def Let_def split: prod.split sum.split)

lemma Unlock_frame [simp]:
  "managers (snd (Unlock l e v)) = managers v"
  "found_rows (snd (Unlock l e v)) = found_rows v"
  "trace (snd (Unlock l e v)) =
     trace v @ [Exec (UPDATE [SetInUse False, SetLastError (case e of None \<Rightarrow> [] | Some x \<Rightarrow> Error x)]
                       [NameEq (name l), OwnerEq (owner (managers v (rl l)))])]"
  by (simp_all add: snd_Unlock)

lemma script_Unlock: "script (snd (Unlock l E v)) = script (arrive v)"
  by (simp add: snd_Unlock)

lemma snd_Lock_LastError:
  "snd (Lock_LastError l v) =
     snd (db_Get (SELECT_last_error [NameEq (name l), OwnerEq (owner (managers v (rl l)))]) v)"
  by (simp add: Lock_LastError_def split: prod.split sum.split)

lemma Lock_LastError_frame [simp]:
  "managers (snd (Lock_LastError l v)) = managers v"
  "table (snd (Lock_LastError l v)) = table (arrive v)"
  "trace (snd (Lock_LastError l v)) =
     trace v @ [Get (SELECT_last_error [NameEq (name l), OwnerEq (owner (managers v (rl l)))])]"
  by (simp_all add: snd_Lock_LastError)

subsection \<open>What the statements of the package do to a row\<close>

lemma takeover_assigned:
  "assigned [SetOwner x, SetInUse True] e = e\<lparr>Owner := x, InUse := True\<rparr>"
  by (simp add: assigned_def)

lemma takeover_unchanged:
  "(e\<lparr>Owner := x, InUse := True\<rparr> = e) = (Owner e = x \<and> InUse e)"
  by (cases e) auto

lemma takeover_matches:
  "matches [NameEq s, InUseEq False, OwnerEq obs] e = (Name e = s \<and> Owner e = obs \<and> \<not> InUse e)"
  "matches [NameEq s, OwnerEq obs] e = (Name e = s \<and> Owner e = obs)"
  by (auto simp: matches_def)

lemma takeover_counted:
  "counted fr [SetOwner x, SetInUse True] [NameEq s, InUseEq False, OwnerEq obs] e =
     (Name e = s \<and> Owner e = obs \<and> \<not> InUse e)"
  "counted fr [SetOwner x, SetInUse True] [NameEq s, OwnerEq obs] e =
     (Name e = s \<and> Owner e = obs \<and> (fr \<or> \<not> (Owner e = x \<and> InUse e)))"
  by (auto simp: counted_def takeover_matches takeover_assigned takeover_unchanged)

lemma takeover_written:
  "written now [SetOwner x, SetInUse True] e =
     (if Owner e = x \<and> InUse e then e else e\<lparr>Owner := x, InUse := True, LastUsed := now\<rparr>)"
  by (simp add: written_def takeover_assigned takeover_unchanged)

lemma unlock_assigned:
  "assigned [SetInUse False, SetLastError x] e = e\<lparr>InUse := False, LastError := x\<rparr>"
  by (simp add: assigned_def)

lemma unlock_unchanged:
  "(e\<lparr>InUse := False, LastError := x\<rparr> = e) = (\<not> InUse e \<and> LastError e = x)"
  by (cases e) auto

lemma unlock_counted:
  "counted fr [SetInUse False, SetLastError x] [NameEq s, OwnerEq obs] e =
     (Name e = s \<and> Owner e = obs \<and> (fr \<or> InUse e \<or> LastError e \<noteq> x))"
  by (auto simp: counted_def takeover_matches unlock_assigned unlock_unchanged)

lemma unlock_written:
  "written now [SetInUse False, SetLastError x] e =
     (if \<not> InUse e \<and> LastError e = x then e
      else e\<lparr>InUse := False, LastError := x, LastUsed := now\<rparr>)"
  by (simp add: written_def unlock_assigned unlock_unchanged)

text \<open>The result of \<^verbatim>\<open>Exec\<close> for an update, by the failure it meets.\<close>

lemma db_Exec_UPDATE:
  "fst (db_Exec (UPDATE as cs) v) =
     (case next_fault v of
        Healthy \<Rightarrow> Inr (Inr (int (length (filter (counted (found_rows v) as cs) (table (arrive v))))))
      | Fails x \<Rightarrow> Inl (of_db_error x)
      | CountFails x \<Rightarrow> Inr (Inl (of_db_error x)))"
  by (simp add: db_Exec_def Let_def split: fault.split)

lemma table_db_Exec_UPDATE:
  "table (snd (db_Exec (UPDATE as cs) v)) =
     (if \<exists>x. next_fault v = Fails x then table (arrive v)
      else map (\<lambda>e. if matches cs e then written (clock (arrive v)) as e else e) (table (arrive v)))"
  by (simp add: snd_db_Exec)

lemma fst_takeover:
  "fst (takeover p s obs force v) =
     (case fst (db_Exec (takeover_query force (owner (managers v p)) s obs) v) of
        Inl err \<Rightarrow> Some (Errorf (''unable to take over '' @ apos @ s @ apos @ '': '' @ Error err))
      | Inr (Inl err) \<Rightarrow>
          Some (Errorf (''unable to determine rows affected during takeover for '' @
                        apos @ s @ apos @ '': '' @ Error err))
      | Inr (Inr affected) \<Rightarrow>
          if affected > 1 then Some (Errorf ''lock takeover affected more than 1 row, possible bug'')
          else if affected = 0 then Some (Errorf ''unable to takeover lock, still in use'')
          else None)"
  by (simp add: takeover_def split: prod.split sum.split)

lemma fst_Unlock:
  "fst (Unlock l e v) =
     (case fst (db_Exec (UPDATE [SetInUse False, SetLastError (case e of None \<Rightarrow> [] | Some x \<Rightarrow> Error x)]
                           [NameEq (name l), OwnerEq (owner (managers v (rl l)))]) v) of
        Inl err \<Rightarrow> Some (Errorf (''unable to unlock '' @ apos @ name l @ apos @ '': '' @ Error err))
      | Inr (Inl err) \<Rightarrow>
          Some (Errorf (''unable to determine affected rows after unlock for '' @
                        apos @ name l @ apos @ '': '' @ Error err))
      | Inr (Inr affected) \<Rightarrow>
          if affected \<noteq> 1
          then Some (Errorf (''unexpected number of affected rows after unlock ('' @
                             int_decimal affected @ '')''))
          else None)"
  by (simp add: Unlock_def Let_def split: prod.split sum.split)

lemma stale_iff: "(MaxAge < time_Since t v) = (MaxAge < clock v - t)"
  unfolding time_Since_def MaxAge_def by (simp add: max_def min_def)

subsection \<open>The paths of Lock\<close>

lemma Lock_insert_ok:
  "db_Exec (INSERT s (owner (managers w p)) True) w = (Inr res, w1) \<Longrightarrow>
   Lock p s t w = (Inr \<lparr>rl = p, name = s, timeout = t\<rparr>, w1)"
  by (simp add: Lock_def)

lemma Lock_insert_fail:
  "db_Exec (INSERT s (owner (managers w p)) True) w = (Inl err, w1) \<Longrightarrow>
   \<forall>m. err \<noteq> MySQLError 1062 m \<Longrightarrow>
   Lock p s t w =
     (Inl (Errorf (''unable to insert lock for '' @ apos @ s @ apos @ '': '' @ Error err)), w1)"
  by (cases err) (simp_all add: Lock_def)

lemma Lock_fetch_fail:
  "db_Exec (INSERT s (owner (managers w p)) True) w = (Inl (MySQLError 1062 m), w1) \<Longrightarrow>
   getExistingByName p s w1 = (Inl err, w2) \<Longrightarrow>
   Lock p s t w =
     (Inl (Errorf (if err = KeyNotFoundErr then ''lock no longer exists''
                   else ''unable to fetch existing lock: '' @ Error err)), w2)"
  by (simp add: Lock_def)

lemma Lock_forced:
  "db_Exec (INSERT s (owner (managers w p)) True) w = (Inl (MySQLError 1062 m), w1) \<Longrightarrow>
   getExistingByName p s w1 = (Inr e, w2) \<Longrightarrow>
   isValid (Some e) s t w2 = Some x \<Longrightarrow>
   Lock p s t w =
     (case fst (takeover p s (Owner e) True w2) of
        Some err \<Rightarrow> Inl (Errorf (''unable to take over lock '' @ apos @ s @ apos @ '': '' @ Error err))
      | None \<Rightarrow> Inr \<lparr>rl = p, name = s, timeout = t\<rparr>,
      snd (takeover p s (Owner e) True w2))"
  by (simp add: Lock_def split: prod.split option.split)

lemma Lock_valid:
  "db_Exec (INSERT s (owner (managers w p)) True) w = (Inl (MySQLError 1062 m), w1) \<Longrightarrow>
   getExistingByName p s w1 = (Inr e, w2) \<Longrightarrow>
   isValid (Some e) s t w2 = None \<Longrightarrow>
   Lock p s t w = Lock_poll p s (Owner e) t (time_NewTimer t w2) w2"
  by (simp add: Lock_def)

lemma Lock_cases [case_names fast insert_failed fetch_failed forced poll]:
  obtains
    res w1 where "db_Exec (INSERT s (owner (managers w p)) True) w = (Inr res, w1)"
      and "Lock p s t w = (Inr \<lparr>rl = p, name = s, timeout = t\<rparr>, w1)"
  | err w1 where "db_Exec (INSERT s (owner (managers w p)) True) w = (Inl err, w1)"
      and "\<forall>m. err \<noteq> MySQLError 1062 m"
      and "Lock p s t w =
        (Inl (Errorf (''unable to insert lock for '' @ apos @ s @ apos @ '': '' @ Error err)), w1)"
  | m w1 err w2 where
      "db_Exec (INSERT s (owner (managers w p)) True) w = (Inl (MySQLError 1062 m), w1)"
      and "getExistingByName p s w1 = (Inl err, w2)"
      and "Lock p s t w =
        (Inl (Errorf (if err = KeyNotFoundErr then ''lock no longer exists''
                      else ''unable to fetch existing lock: '' @ Error err)), w2)"
  | m w1 e w2 x where
      "db_Exec (INSERT s (owner (managers w p)) True) w = (Inl (MySQLError 1062 m), w1)"
      and "getExistingByName p s w1 = (Inr e, w2)"
      and "isValid (Some e) s t w2 = Some x"
      and "Lock p s t w =
        (case fst (takeover p s (Owner e) True w2) of
           Some err \<Rightarrow>
             Inl (Errorf (''unable to take over lock '' @ apos @ s @ apos @ '': '' @ Error err))
         | None \<Rightarrow> Inr \<lparr>rl = p, name = s, timeout = t\<rparr>,
         snd (takeover p s (Owner e) True w2))"
  | m w1 e w2 where
      "db_Exec (INSERT s (owner (managers w p)) True) w = (Inl (MySQLError 1062 m), w1)"
      and "getExistingByName p s w1 = (Inr e, w2)"
      and "isValid (Some e) s t w2 = None"
      and "Lock p s t w = Lock_poll p s (Owner e) t (time_NewTimer t w2) w2"
proof (cases "db_Exec (INSERT s (owner (managers w p)) True) w")
  case (Pair r w1)
  show thesis
  proof (cases r)
    case (Inr res)
    with Pair that(1) Lock_insert_ok show thesis
      by blast
  next
    case (Inl err)
    show thesis
    proof (cases "\<exists>m. err = MySQLError 1062 m")
      case False
      with Pair Inl that(2) Lock_insert_fail show thesis
        by blast
    next
      case True
      then obtain m where m: "err = MySQLError 1062 m" ..
      with Pair Inl
      have dupe: "db_Exec (INSERT s (owner (managers w p)) True) w = (Inl (MySQLError 1062 m), w1)"
        by simp
      obtain g w2 where fetch: "getExistingByName p s w1 = (g, w2)"
        by (cases "getExistingByName p s w1")
      show thesis
      proof (cases g)
        case (Inl err')
        with dupe fetch that(3) Lock_fetch_fail show thesis
          by blast
      next
        case (Inr e)
        show thesis
        proof (cases "isValid (Some e) s t w2")
          case None
          with dupe fetch Inr that(5) Lock_valid show thesis
            by blast
        next
          case (Some x)
          with dupe fetch Inr that(4) Lock_forced show thesis
            by blast
        qed
      qed
    qed
  qed
qed

lemma Lock_poll_expired:
  "d \<le> clock w \<Longrightarrow> Lock_poll p s obs t d w = (Inl AcquireTimeoutErr, w)"
  by (simp add: Lock_poll.simps)

lemma Lock_poll_retry:
  "\<not> d \<le> clock w \<Longrightarrow> fst (takeover p s obs False (time_Sleep PollInterval w)) \<noteq> None \<Longrightarrow>
   Lock_poll p s obs t d w =
     Lock_poll p s obs t d (snd (takeover p s obs False (time_Sleep PollInterval w)))"
  by (subst Lock_poll.simps) (auto split: prod.split option.split)

lemma Lock_poll_acquired:
  "\<not> d \<le> clock w \<Longrightarrow> fst (takeover p s obs False (time_Sleep PollInterval w)) = None \<Longrightarrow>
   Lock_poll p s obs t d w =
     (Inr \<lparr>rl = p, name = s, timeout = t\<rparr>,
      snd (takeover p s obs False (time_Sleep PollInterval w)))"
  by (subst Lock_poll.simps) (auto split: prod.split option.split)

text \<open>
  The loop ends, after some number \<open>k\<close> of rounds of one sleep and one guarded takeover,
  with a handle or with the timeout sentinel.
\<close>

lemma Lock_poll_outcome:
  "\<exists>k. ((fst (Lock_poll p s obs t d w) = Inr \<lparr>rl = p, name = s, timeout = t\<rparr> \<and> 0 < k) \<or>
        (fst (Lock_poll p s obs t d w) = Inl AcquireTimeoutErr \<and>
         d \<le> clock (snd (Lock_poll p s obs t d w)))) \<and>
       trace (snd (Lock_poll p s obs t d w)) =
         trace w @ concat (replicate k
           [Sleep PollInterval, Exec (takeover_query False (owner (managers w p)) s obs)]) \<and>
       managers (snd (Lock_poll p s obs t d w)) = managers w"
proof (induction p s obs t d w rule: Lock_poll.induct)
  case (1 p s obs t d w)
  let ?x = "takeover p s obs False (time_Sleep PollInterval w)"
  let ?round = "[Sleep PollInterval, Exec (takeover_query False (owner (managers w p)) s obs)]"
  show ?case
  proof (cases "d \<le> clock w")
    case True
    then have "Lock_poll p s obs t d w = (Inl AcquireTimeoutErr, w)"
      by (rule Lock_poll_expired)
    with True show ?thesis
      by (intro exI [of _ 0]) simp
  next
    case False
    have tr: "trace (snd ?x) = trace w @ ?round"
      by simp
    show ?thesis
    proof (cases "fst ?x")
      case None
      with False have "Lock_poll p s obs t d w = (Inr \<lparr>rl = p, name = s, timeout = t\<rparr>, snd ?x)"
        by (rule Lock_poll_acquired)
      with tr show ?thesis
        by (intro exI [of _ 1]) simp
    next
      case (Some err)
      with False have eq: "Lock_poll p s obs t d w = Lock_poll p s obs t d (snd ?x)"
        by (intro Lock_poll_retry) simp_all
      from "1.IH" [OF False prod.collapse Some]
      obtain k where
        k: "(fst (Lock_poll p s obs t d (snd ?x)) = Inr \<lparr>rl = p, name = s, timeout = t\<rparr> \<and> 0 < k) \<or>
            (fst (Lock_poll p s obs t d (snd ?x)) = Inl AcquireTimeoutErr \<and>
             d \<le> clock (snd (Lock_poll p s obs t d (snd ?x))))"
        and tk: "trace (snd (Lock_poll p s obs t d (snd ?x))) =
            trace (snd ?x) @ concat (replicate k
              [Sleep PollInterval, Exec (takeover_query False (owner (managers (snd ?x) p)) s obs)])"
        and mk: "managers (snd (Lock_poll p s obs t d (snd ?x))) = managers (snd ?x)"
        by blast
      from k tk mk show ?thesis
        unfolding eq by (intro exI [of _ "Suc k"]) auto
    qed
  qed
qed

lemma Lock_poll_rounds:
  "\<exists>k. ((fst (Lock_poll p s obs t d w) = Inr \<lparr>rl = p, name = s, timeout = t\<rparr> \<and> 0 < k \<and>
         (\<exists>v. fst (takeover p s obs False (time_Sleep PollInterval v)) = None \<and>
              snd (Lock_poll p s obs t d w) = snd (takeover p s obs False (time_Sleep PollInterval v)))) \<or>
        (fst (Lock_poll p s obs t d w) = Inl AcquireTimeoutErr \<and>
         d \<le> clock (snd (Lock_poll p s obs t d w)))) \<and>
       trace (snd (Lock_poll p s obs t d w)) =
         trace w @ concat (replicate k
           [Sleep PollInterval, Exec (takeover_query False (owner (managers w p)) s obs)]) \<and>
       (0 < k \<longrightarrow> clock w + (int k - 1) * PollInterval < d) \<and>
       clock w + int k * PollInterval \<le> clock (snd (Lock_poll p s obs t d w))"
proof (induction p s obs t d w rule: Lock_poll.induct)
  case (1 p s obs t d w)
  let ?x = "takeover p s obs False (time_Sleep PollInterval w)"
  let ?round = "[Sleep PollInterval, Exec (takeover_query False (owner (managers w p)) s obs)]"
  show ?case
  proof (cases "d \<le> clock w")
    case True
    then have "Lock_poll p s obs t d w = (Inl AcquireTimeoutErr, w)"
      by (rule Lock_poll_expired)
    with True show ?thesis
      by (intro exI [of _ 0]) simp
  next
    case False
    have tr: "trace (snd ?x) = trace w @ ?round"
      by simp
    have cl: "clock w + PollInterval \<le> clock (snd ?x)"
      using takeover_clock [of "time_Sleep PollInterval w" p s obs False]
      by (simp add: time_Sleep_def PollInterval_def)
    show ?thesis
    proof (cases "fst ?x")
      case None
      with False have "Lock_poll p s obs t d w = (Inr \<lparr>rl = p, name = s, timeout = t\<rparr>, snd ?x)"
        by (rule Lock_poll_acquired)
      with tr cl False None show ?thesis
        by (intro exI [of _ 1]) auto
    next
      case (Some err)
      with False have eq: "Lock_poll p s obs t d w = Lock_poll p s obs t d (snd ?x)"
        by (intro Lock_poll_retry) simp_all
      from "1.IH" [OF False prod.collapse Some]
      obtain k where
        k: "(fst (Lock_poll p s obs t d (snd ?x)) = Inr \<lparr>rl = p, name = s, timeout = t\<rparr> \<and> 0 < k \<and>
             (\<exists>v. fst (takeover p s obs False (time_Sleep PollInterval v)) = None \<and>
                  snd (Lock_poll p s obs t d (snd ?x)) =
                    snd (takeover p s obs False (time_Sleep PollInterval v)))) \<or>
            (fst (Lock_poll p s obs t d (snd ?x)) = Inl AcquireTimeoutErr \<and>
             d \<le> clock (snd (Lock_poll p s obs t d (snd ?x))))"
        and tk: "trace (snd (Lock_poll p s obs t d (snd ?x))) =
            trace (snd ?x) @ concat (replicate k
              [Sleep PollInterval, Exec (takeover_query False (owner (managers (snd ?x) p)) s obs)])"
        and bk: "0 < k \<longrightarrow> clock (snd ?x) + (int k - 1) * PollInterval < d"
        and ck: "clock (snd ?x) + int k * PollInterval \<le> clock (snd (Lock_poll p s obs t d (snd ?x)))"
        by blast
      have b: "clock w + (int (Suc k) - 1) * PollInterval < d"
      proof (cases k)
        case 0
        with False show ?thesis by simp
      next
        case (Suc j)
        with bk cl show ?thesis by (simp add: algebra_simps)
      qed
      have c: "clock w + int (Suc k) * PollInterval \<le> clock (snd (Lock_poll p s obs t d (snd ?x)))"
        using ck cl by (simp add: algebra_simps)
      from k tk b c show ?thesis
        unfolding eq by (intro exI [of _ "Suc k"]) auto
    qed
  qed
qed

lemma Lock_frame [simp]: "managers (snd (Lock p s t w)) = managers w"
proof (cases rule: Lock_cases [of s w p t])
  case (fast res w1)
  then show ?thesis by (auto dest: db_Exec_snd)
next
  case (insert_failed err w1)
  then show ?thesis by (auto dest: db_Exec_snd)
next
  case (fetch_failed m w1 err w2)
  then show ?thesis by (auto dest!: db_Exec_snd getExistingByName_snd)
next
  case (forced m w1 e w2 x)
  then show ?thesis by (auto dest!: db_Exec_snd getExistingByName_snd)
next
  case (poll m w1 e w2)
  from Lock_poll_outcome [of p s "Owner e" t "time_NewTimer t w2" w2]
  have "managers (snd (Lock_poll p s (Owner e) t (time_NewTimer t w2) w2)) = managers w2"
    by blast
  with poll show ?thesis by (auto dest!: db_Exec_snd getExistingByName_snd)
qed

lemma Lock_handle:
  assumes "fst (Lock p s t w) = Inr h"
  shows "h = \<lparr>rl = p, name = s, timeout = t\<rparr>"
proof (cases rule: Lock_cases [of s w p t])
  case (poll m w1 e w2)
  from Lock_poll_outcome [of p s "Owner e" t "time_NewTimer t w2" w2]
  have "fst (Lock_poll p s (Owner e) t (time_NewTimer t w2) w2) = Inr \<lparr>rl = p, name = s, timeout = t\<rparr> \<or>
        fst (Lock_poll p s (Owner e) t (time_NewTimer t w2) w2) = Inl AcquireTimeoutErr"
    by blast
  with poll assms show ?thesis by auto
qed (use assms in \<open>auto split: option.splits\<close>)

subsection \<open>Lock names stay unique\<close>

lemma Name_assigned [simp]: "Name (assigned as e) = Name e"
  unfolding assigned_def
proof (induction as arbitrary: e)
  case Nil
  show ?case by simp
next
  case (Cons a as)
  show ?case by (cases a) (simp_all add: Cons.IH)
qed

lemma Name_written [simp]: "Name (written now as e) = Name e"
  by (simp add: written_def)

lemma run_stmt_names:
  assumes "distinct (map Name (table v))"
  shows "distinct (map Name (table (snd (run_stmt q v))))"
proof (cases q)
  case (INSERT s o' b)
  with assms show ?thesis
    by (auto simp: list_ex_iff)
next
  case (UPDATE as cs)
  have "Name \<circ> (\<lambda>e. if matches cs e then written (clock v) as e else e) = Name"
    by (auto simp: fun_eq_iff)
  with assms UPDATE show ?thesis
    by simp
next
  case (DELETE cs)
  with assms show ?thesis
    by (simp add: distinct_map_filter)
qed

lemma run_others_names:
  "distinct (map Name (table v)) \<Longrightarrow> distinct (map Name (table (run_others qs v)))"
  unfolding run_others_def
  by (induction qs arbitrary: v) (simp_all add: run_stmt_names)

lemma arrive_names:
  "distinct (map Name (table v)) \<Longrightarrow> distinct (map Name (table (arrive v)))"
  by (simp add: arrive_def run_others_names split: list.split)

lemma db_Exec_names:
  "distinct (map Name (table v)) \<Longrightarrow> distinct (map Name (table (snd (db_Exec q v))))"
  using run_stmt_names [of "(arrive v)\<lparr>trace := trace v @ [Exec q]\<rparr>" q] arrive_names [of v]
  by (simp add: snd_db_Exec)

subsection \<open>A quiet store and the one row of a name\<close>

lemma quiet_store:
  assumes "script v = []"
  shows "arrive v = v" and "next_fault v = Healthy"
  using assms by (simp_all add: arrive_def next_fault_def)

lemma filter_via_name:
  assumes "\<And>r. P r \<Longrightarrow> Name r = s"
  shows "filter P T = filter P (filter (\<lambda>r. Name r = s) T)"
  by (induction T) (auto dest: assms)

lemma sole_from_distinct:
  "distinct (map Name T) \<Longrightarrow> e \<in> set T \<Longrightarrow> filter (\<lambda>r. Name r = Name e) T = [e]"
proof (induction T)
  case Nil
  then show ?case by simp
next
  case (Cons a T)
  show ?case
  proof (cases "a = e")
    case True
    have "Name r \<noteq> Name e" if "r \<in> set T" for r
      using Cons.prems(1) True that by (metis distinct.simps(2) image_eqI list.simps(9) set_map)
    then have "filter (\<lambda>r. Name r = Name e) T = []"
      by (simp add: filter_empty_conv)
    with True show ?thesis by simp
  next
    case False
    with Cons.prems have "e \<in> set T" and "Name a \<noteq> Name e"
      by auto
    with Cons show ?thesis by simp
  qed
qed

lemma sole_after_map:
  assumes "filter (\<lambda>r. Name r = s) T = [e]" and "\<And>r. Name (f r) = Name r"
  shows "filter (\<lambda>r. Name r = s) (map f T) = [f e]"
proof -
  have "filter (\<lambda>r. Name r = s) (map f T) = map f (filter (\<lambda>r. Name r = s) T)"
    by (simp add: filter_map comp_def assms(2))
  with assms(1) show ?thesis by simp
qed

lemma matches_name: "matches [NameEq s] = (\<lambda>r. Name r = s)"
  by (simp add: fun_eq_iff matches_def)

lemma sole_member:
  assumes "filter (\<lambda>r. Name r = s) T = [e]"
  shows "e \<in> set T" and "Name e = s"
proof -
  have "e \<in> set (filter (\<lambda>r. Name r = s) T)"
    by (simp add: assms)
  then show "e \<in> set T" and "Name e = s"
    by simp_all
qed

text \<open>After a successful unlock the row of the name is released and carries the text.\<close>

lemma Unlock_success:
  assumes ok: "Unlock l E w = (None, w1)" and uniq: "distinct (map Name (table w))"
  shows "\<exists>e. filter (\<lambda>r. Name r = name l) (table w1) = [e] \<and> \<not> InUse e \<and>
             LastError e = (case E of None \<Rightarrow> [] | Some x \<Rightarrow> Error x) \<and>
             Owner e = owner (managers w (rl l))"
proof -
  let ?msg = "case E of None \<Rightarrow> [] | Some x \<Rightarrow> Error x"
  let ?as = "[SetInUse False, SetLastError ?msg]"
  let ?cs = "[NameEq (name l), OwnerEq (owner (managers w (rl l)))]"
  let ?f = "\<lambda>e. if matches ?cs e then written (clock (arrive w)) ?as e else e"
  from ok have none: "fst (Unlock l E w) = None" and w1: "w1 = snd (Unlock l E w)"
    by simp_all
  from none have healthy: "next_fault w = Healthy"
    by (cases "next_fault w") (simp_all add: fst_Unlock db_Exec_UPDATE)
  with none have "length (filter (counted (found_rows w) ?as ?cs) (table (arrive w))) = 1"
    by (simp add: fst_Unlock db_Exec_UPDATE split: if_splits)
  then obtain e0 where "filter (counted (found_rows w) ?as ?cs) (table (arrive w)) = [e0]"
    by (auto simp: length_Suc_conv)
  then have "e0 \<in> set (filter (counted (found_rows w) ?as ?cs) (table (arrive w)))"
    by simp
  then have e0: "e0 \<in> set (table (arrive w))" "matches ?cs e0"
    by (simp_all add: counted_def)
  from healthy have tab: "table w1 = map ?f (table (arrive w))"
    by (simp add: w1 snd_Unlock table_db_Exec_UPDATE)
  have names: "map Name (table w1) = map Name (table (arrive w))"
    unfolding tab by (induction "table (arrive w)") auto
  from e0(1) have "?f e0 \<in> ?f ` set (table (arrive w))"
    by (rule imageI)
  then have in1: "?f e0 \<in> set (table w1)"
    by (simp only: tab set_map)
  have "distinct (map Name (table w1))"
    using arrive_names [OF uniq] by (simp add: names)
  from sole_from_distinct [OF this in1] e0(2)
  have "filter (\<lambda>r. Name r = name l) (table w1) = [?f e0]"
    by (simp add: takeover_matches)
  moreover from e0(2) have "\<not> InUse (?f e0)" "LastError (?f e0) = ?msg"
    "Owner (?f e0) = owner (managers w (rl l))"
    by (simp_all add: unlock_written takeover_matches)
  ultimately show ?thesis
    by blast
qed

text \<open>
  On a quiet store, a claimant that finds the row of the name released takes it over by
  force; the row keeps its \<open>last_error\<close>.
\<close>

lemma Lock_on_released:
  assumes sole: "filter (\<lambda>r. Name r = s) (table v) = [e]"
    and free: "\<not> InUse e" and quiet: "script v = []"
  shows "\<exists>v'. Lock p s t v = (Inr \<lparr>rl = p, name = s, timeout = t\<rparr>, v') \<and> script v' = [] \<and>
              managers v' = managers v \<and>
              filter (\<lambda>r. Name r = s) (table v') =
                [e\<lparr>Owner := owner (managers v p), InUse := True, LastUsed := clock v\<rparr>]"
proof -
  let ?self = "owner (managers v p)"
  let ?ins = "INSERT s ?self True"
  let ?v1 = "v\<lparr>trace := trace v @ [Exec ?ins]\<rparr>"
  let ?v2 = "?v1\<lparr>trace := trace ?v1 @ [Get (SELECT_ALL [NameEq s])]\<rparr>"
  let ?as = "[SetOwner ?self, SetInUse True]"
  let ?cs = "[NameEq s, OwnerEq (Owner e)]"
  let ?f = "\<lambda>r. if matches ?cs r then written (clock v) ?as r else r"
  let ?v3 = "snd (takeover p s (Owner e) True ?v2)"
  note e = sole_member [OF sole]
  have "list_ex (\<lambda>r. Name r = s) (table v)"
    using e by (auto simp: list_ex_iff)
  then have ins: "db_Exec (INSERT s (owner (managers v p)) True) v =
      (Inl (of_db_error (duplicate_entry s)), ?v1)"
    by (simp add: db_Exec_def quiet_store quiet)
  have q1: "script ?v1 = []"
    by (simp add: quiet)
  have get: "getExistingByName p s ?v1 = (Inr e, ?v2)"
    by (simp add: getExistingByName_def db_Get_def quiet_store quiet matches_name sole)
  have q2: "script ?v2 = []"
    by (simp add: quiet)
  have invalid: "isValid (Some e) s t ?v2 = Some (Errorf ''existing lock is not in use'')"
    by (simp add: isValid_def free)
  have "filter (counted (found_rows ?v2) ?as ?cs) (table ?v2) =
      filter (counted (found_rows ?v2) ?as ?cs) (filter (\<lambda>r. Name r = s) (table ?v2))"
    by (rule filter_via_name) (simp add: takeover_counted)
  also have "\<dots> = [e]"
    using e free by (simp add: sole takeover_counted)
  finally have "fst (db_Exec (UPDATE ?as ?cs) ?v2) = Inr (Inr 1)"
    by (simp add: db_Exec_UPDATE quiet_store quiet)
  then have won: "fst (takeover p s (Owner e) True ?v2) = None"
    by (simp add: fst_takeover takeover_query_def)
  have tab: "table ?v3 = map ?f (table v)"
    by (simp add: snd_takeover takeover_query_def table_db_Exec_UPDATE quiet_store quiet)
  have "filter (\<lambda>r. Name r = s) (table ?v3) = [?f e]"
    unfolding tab by (rule sole_after_map [OF sole]) simp
  moreover have "?f e = e\<lparr>Owner := ?self, InUse := True, LastUsed := clock v\<rparr>"
    using e free by (simp add: takeover_matches takeover_written)
  moreover have "script ?v3 = []"
    by (simp add: snd_takeover quiet_store quiet)
  moreover have "managers ?v3 = managers v"
    by simp
  moreover from Lock_forced [of s v p _ ?v1 e ?v2 t, OF _ get invalid] ins won
  have "Lock p s t v = (Inr \<lparr>rl = p, name = s, timeout = t\<rparr>, ?v3)"
    by (simp add: duplicate_entry_def)
  ultimately show ?thesis
    by simp
qed

text \<open>
  A claimant that is polling for the name, with the row's owner as the owner it observed,
  wins at its next round.
\<close>

lemma Lock_poll_on_released:
  assumes sole: "filter (\<lambda>r. Name r = s) (table v) = [e]"
    and free: "\<not> InUse e" and obs: "Owner e = obs" and quiet: "script v = []"
    and running: "\<not> d \<le> clock v"
  shows "\<exists>v'. Lock_poll p s obs t d v = (Inr \<lparr>rl = p, name = s, timeout = t\<rparr>, v') \<and>
              script v' = [] \<and> managers v' = managers v \<and>
              filter (\<lambda>r. Name r = s) (table v') =
                [e\<lparr>Owner := owner (managers v p), InUse := True,
                   LastUsed := clock v + PollInterval\<rparr>]"
proof -
  let ?self = "owner (managers v p)"
  let ?v1 = "time_Sleep PollInterval v"
  let ?as = "[SetOwner ?self, SetInUse True]"
  let ?cs = "[NameEq s, InUseEq False, OwnerEq obs]"
  let ?f = "\<lambda>r. if matches ?cs r then written (clock ?v1) ?as r else r"
  let ?v2 = "snd (takeover p s obs False ?v1)"
  note e = sole_member [OF sole]
  have q1: "script ?v1 = []"
    by (simp add: quiet)
  have "filter (counted (found_rows ?v1) ?as ?cs) (table ?v1) =
      filter (counted (found_rows ?v1) ?as ?cs) (filter (\<lambda>r. Name r = s) (table ?v1))"
    by (rule filter_via_name) (simp add: takeover_counted)
  also have "\<dots> = [e]"
    using e free obs by (simp add: sole takeover_counted)
  finally have "fst (db_Exec (UPDATE ?as ?cs) ?v1) = Inr (Inr 1)"
    by (simp add: db_Exec_UPDATE quiet_store quiet)
  then have won: "fst (takeover p s obs False ?v1) = None"
    by (simp add: fst_takeover takeover_query_def)
  have tab: "table ?v2 = map ?f (table v)"
    by (simp add: snd_takeover takeover_query_def table_db_Exec_UPDATE quiet_store quiet)
  have "filter (\<lambda>r. Name r = s) (table ?v2) = [?f e]"
    unfolding tab by (rule sole_after_map [OF sole]) simp
  moreover have "?f e = e\<lparr>Owner := ?self, InUse := True, LastUsed := clock v + PollInterval\<rparr>"
    using e free obs
    by (simp add: takeover_matches takeover_written time_Sleep_def PollInterval_def)
  moreover have "script ?v2 = []"
    by (simp add: snd_takeover quiet_store quiet)
  moreover have "managers ?v2 = managers v"
    by simp
  moreover from Lock_poll_acquired [OF running won]
  have "Lock_poll p s obs t d v = (Inr \<lparr>rl = p, name = s, timeout = t\<rparr>, ?v2)" .
  ultimately show ?thesis
    by simp
qed

lemma LastError_of_sole_row:
  assumes sole: "filter (\<lambda>r. Name r = name h) (table v) = [e]"
    and mine: "Owner e = owner (managers v (rl h))" and quiet: "script v = []"
  shows "fst (Lock_LastError h v) =
           (if LastError e = [] then None else Some (Errorf (LastError e)))"
proof -
  let ?cs = "[NameEq (name h), OwnerEq (owner (managers v (rl h)))]"
  have "filter (matches ?cs) (table v) = filter (matches ?cs) (filter (\<lambda>r. Name r = name h) (table v))"
    by (rule filter_via_name) (simp add: takeover_matches)
  also have "\<dots> = [e]"
    using sole_member [OF sole] mine by (simp add: sole takeover_matches)
  finally show ?thesis
    by (simp add: Lock_LastError_def db_Get_def quiet_store quiet)
qed

subsection \<open>The owner token and running the examples\<close>

lemma length_hex_encode: "length (hex_encode bs) = 2 * length bs"
  by (induction bs) (simp_all add: hex_encode_def)

lemma length_UUID_String: "length (UUID_String u) = 36"
  by (simp add: UUID_String_def UUID_bytes_def Let_def length_hex_encode)

lemmas store_defs = db_Exec_def db_Get_def next_fault_def arrive_def run_others_def Let_def
  matches_def assigned_def written_def counted_def

lemmas run_defs = store_defs takeover_def takeover_query_def getExistingByName_def isValid_def
  time_Since_def time_Sleep_def time_NewTimer_def MaxAge_def PollInterval_def
  released_def abandoned_def held_def quiet_def job_of_A_def calm_def duplicate_entry_def

lemmas Lock_run = Lock_def Lock_poll_expired Lock_poll_retry Lock_poll_acquired run_defs flaky_def
  down_def stolen_def

section \<open>The claims\<close>

subsection \<open>Takeover\<close>

text \<open>
  C1. A takeover succeeds exactly when the store carries the update out and reports one
  row affected. The rows it can affect are those with the given name and the observed
  owner, and, unless forced, not in use; each of them gets the caller's token as owner
  and is marked in use. No row reported gives the error \<^verbatim>\<open>still in use\<close>, more than one
  the error \<^verbatim>\<open>affected more than 1 row, possible bug\<close>.
\<close>

theorem takeover_contract:
  fixes p :: nat and s obs :: string and force :: bool and w :: world
  defines "self \<equiv> owner (managers w p)"
    and "hit \<equiv> \<lambda>e. Name e = s \<and> Owner e = obs \<and> (force \<or> \<not> InUse e)"
  defines "affected \<equiv>
      length (filter (\<lambda>e. hit e \<and> (found_rows w \<or> \<not> (Owner e = self \<and> InUse e))) (table (arrive w)))"
  shows "trace (snd (takeover p s obs force w)) =
      trace w @
      [Exec (UPDATE [SetOwner self, SetInUse True]
               (if force then [NameEq s, OwnerEq obs]
                else [NameEq s, InUseEq False, OwnerEq obs]))] \<and>
    (fst (takeover p s obs force w) = None) = (next_fault w = Healthy \<and> affected = 1) \<and>
    (next_fault w = Healthy \<and> affected = 0 \<longrightarrow>
       fst (takeover p s obs force w) = Some (Errorf ''unable to takeover lock, still in use'')) \<and>
    (next_fault w = Healthy \<and> 1 < affected \<longrightarrow>
       fst (takeover p s obs force w) =
         Some (Errorf ''lock takeover affected more than 1 row, possible bug'')) \<and>
    ((\<forall>x. next_fault w \<noteq> Fails x) \<longrightarrow>
       table (snd (takeover p s obs force w)) =
         map (\<lambda>e. if hit e \<and> \<not> (Owner e = self \<and> InUse e)
                  then e\<lparr>Owner := self, InUse := True, LastUsed := clock (arrive w)\<rparr> else e)
           (table (arrive w))) \<and>
    ((\<exists>x. next_fault w = Fails x) \<longrightarrow>
       table (snd (takeover p s obs force w)) = table (arrive w))"
proof -
  have count: "length (filter (counted (found_rows w) [SetOwner self, SetInUse True]
        (if force then [NameEq s, OwnerEq obs] else [NameEq s, InUseEq False, OwnerEq obs]))
        (table (arrive w))) = affected"
    unfolding affected_def hit_def
    by (rule arg_cong [where f = length], rule filter_cong) (auto simp: takeover_counted)
  have res: "fst (takeover p s obs force w) =
      (case next_fault w of
         Healthy \<Rightarrow>
           if 1 < affected then Some (Errorf ''lock takeover affected more than 1 row, possible bug'')
           else if affected = 0 then Some (Errorf ''unable to takeover lock, still in use'')
           else None
       | Fails x \<Rightarrow>
           Some (Errorf (''unable to take over '' @ apos @ s @ apos @ '': '' @ Error (of_db_error x)))
       | CountFails x \<Rightarrow>
           Some (Errorf (''unable to determine rows affected during takeover for '' @
                         apos @ s @ apos @ '': '' @ Error (of_db_error x))))"
    using count
    by (cases force; cases "next_fault w")
      (simp_all add: fst_takeover takeover_query_def db_Exec_UPDATE self_def)
  have tab: "table (snd (takeover p s obs force w)) =
      (if \<exists>x. next_fault w = Fails x then table (arrive w)
       else map (\<lambda>e. if hit e \<and> \<not> (Owner e = self \<and> InUse e)
                  then e\<lparr>Owner := self, InUse := True, LastUsed := clock (arrive w)\<rparr> else e)
           (table (arrive w)))"
    by (cases force)
      (auto simp: snd_takeover takeover_query_def table_db_Exec_UPDATE takeover_matches
        takeover_written self_def hit_def)
  have tr: "trace (snd (takeover p s obs force w)) =
      trace w @
      [Exec (UPDATE [SetOwner self, SetInUse True]
               (if force then [NameEq s, OwnerEq obs]
                else [NameEq s, InUseEq False, OwnerEq obs]))]"
    by (simp add: takeover_query_def self_def)
  show ?thesis
    unfolding res tab tr by (cases "next_fault w") auto
qed

theorem takeover_contract_witness:
  "trace (snd (takeover 0 ''job'' ''A'' False released)) =
     [Exec (UPDATE [SetOwner ''B'', SetInUse True] [NameEq ''job'', InUseEq False, OwnerEq ''A''])] \<and>
   trace (snd (takeover 0 ''job'' ''A'' True held)) =
     [Exec (UPDATE [SetOwner ''B'', SetInUse True] [NameEq ''job'', OwnerEq ''A''])] \<and>
   fst (takeover 0 ''job'' ''A'' False released) = None \<and>
   table (snd (takeover 0 ''job'' ''A'' False released)) =
     [\<lparr>ID = 1, Name = ''job'', Owner = ''B'', InUse = True, LastError = ''disk full'',
       LastUsed = 0, CreatedAt = 0\<rparr>] \<and>
   fst (takeover 0 ''job'' ''A'' False held) = Some (Errorf ''unable to takeover lock, still in use'') \<and>
   table (snd (takeover 0 ''job'' ''A'' False held)) = [job_of_A] \<and>
   fst (takeover 0 ''job'' ''A'' True held) = None \<and>
   table (snd (takeover 0 ''job'' ''A'' True held)) =
     [\<lparr>ID = 1, Name = ''job'', Owner = ''B'', InUse = True, LastError = [],
       LastUsed = 0, CreatedAt = 0\<rparr>] \<and>
   fst (takeover 0 ''job'' ''A'' False doubled) =
     Some (Errorf ''lock takeover affected more than 1 row, possible bug'')"
  using takeover_contract [of 0 "''job''" "''A''" False released]
    takeover_contract [of 0 "''job''" "''A''" False held]
    takeover_contract [of 0 "''job''" "''A''" True held]
    takeover_contract [of 0 "''job''" "''A''" False doubled]
  by (simp add: next_fault_def arrive_def released_def held_def quiet_def doubled_def job_of_A_def)

subsection \<open>Contention\<close>

text \<open>
  C2. A record is judged invalid exactly when it is nil, or not in use, or in use and
  older than \<open>MaxAge\<close>. On the contention path, for an invalid record \<^verbatim>\<open>Lock\<close>
  makes one forced takeover (its statement is guarded by name and owner only) and returns
  a handle if it succeeds and its wrapped error if it fails, with no further store call;
  for a valid record \<^verbatim>\<open>Lock\<close> is the poll loop, with a timer set to the timeout.
\<close>

theorem contention_resolution:
  assumes "db_Exec (INSERT s (owner (managers w p)) True) w = (Inl (MySQLError 1062 m), w1)"
    and "getExistingByName p s w1 = (Inr e, w2)"
  shows "(isValid x s t v \<noteq> None) =
           (x = None \<or> (\<exists>r. x = Some r \<and> (\<not> InUse r \<or> (InUse r \<and> MaxAge < clock v - LastUsed r)))) \<and>
         (isValid (Some e) s t w2 \<noteq> None \<longrightarrow>
            Lock p s t w =
              (case fst (takeover p s (Owner e) True w2) of
                 Some err \<Rightarrow>
                   Inl (Errorf (''unable to take over lock '' @ apos @ s @ apos @ '': '' @ Error err))
               | None \<Rightarrow> Inr \<lparr>rl = p, name = s, timeout = t\<rparr>,
               snd (takeover p s (Owner e) True w2)) \<and>
            trace (snd (Lock p s t w)) =
              trace w2 @
              [Exec (UPDATE [SetOwner (owner (managers w p)), SetInUse True]
                       [NameEq s, OwnerEq (Owner e)])]) \<and>
         (isValid (Some e) s t w2 = None \<longrightarrow>
            Lock p s t w = Lock_poll p s (Owner e) t (clock w2 + sint t) w2)"
proof (intro conjI impI)
  show "(isValid x s t v \<noteq> None) =
      (x = None \<or> (\<exists>r. x = Some r \<and> (\<not> InUse r \<or> (InUse r \<and> MaxAge < clock v - LastUsed r))))"
    by (cases x) (auto simp: isValid_def stale_iff)
next
  assume "isValid (Some e) s t w2 \<noteq> None"
  then obtain y where y: "isValid (Some e) s t w2 = Some y"
    by blast
  from Lock_forced [OF assms y]
  show forced: "Lock p s t w =
      (case fst (takeover p s (Owner e) True w2) of
         Some err \<Rightarrow>
           Inl (Errorf (''unable to take over lock '' @ apos @ s @ apos @ '': '' @ Error err))
       | None \<Rightarrow> Inr \<lparr>rl = p, name = s, timeout = t\<rparr>,
       snd (takeover p s (Owner e) True w2))" .
  have "managers w2 = managers w"
    using assms by (auto dest!: db_Exec_snd getExistingByName_snd)
  then show "trace (snd (Lock p s t w)) =
      trace w2 @
      [Exec (UPDATE [SetOwner (owner (managers w p)), SetInUse True] [NameEq s, OwnerEq (Owner e)])]"
    by (simp add: forced takeover_query_def)
next
  assume "isValid (Some e) s t w2 = None"
  from Lock_valid [OF assms this]
  show "Lock p s t w = Lock_poll p s (Owner e) t (clock w2 + sint t) w2"
    by (simp add: time_NewTimer_def)
qed

theorem contention_resolution_witness:
  "fst (Lock 0 ''job'' 5 abandoned) = Inr \<lparr>rl = 0, name = ''job'', timeout = 5\<rparr> \<and>
   trace (snd (Lock 0 ''job'' 5 abandoned)) =
     [Exec (INSERT ''job'' ''B'' True), Get (SELECT_ALL [NameEq ''job'']),
      Exec (UPDATE [SetOwner ''B'', SetInUse True] [NameEq ''job'', OwnerEq ''A''])] \<and>
   fst (Lock 0 ''job'' 5 released) = Inr \<lparr>rl = 0, name = ''job'', timeout = 5\<rparr> \<and>
   trace (snd (Lock 0 ''job'' 5 released)) =
     [Exec (INSERT ''job'' ''B'' True), Get (SELECT_ALL [NameEq ''job'']),
      Exec (UPDATE [SetOwner ''B'', SetInUse True] [NameEq ''job'', OwnerEq ''A''])] \<and>
   Lock 0 ''job'' 5 held =
     Lock_poll 0 ''job'' ''A'' 5 5
       (snd (getExistingByName 0 ''job'' (snd (db_Exec (INSERT ''job'' ''B'' True) held))))"
proof -
  let ?ins = "INSERT ''job'' ''B'' True"
  let ?dup = "MySQLError 1062 (''Duplicate entry '' @ apos @ ''job'' @ apos @ '' for key '' @ apos @ ''name'' @ apos)"
  let ?r2 = "snd (getExistingByName 0 ''job'' (snd (db_Exec ?ins released)))"
  let ?h2 = "snd (getExistingByName 0 ''job'' (snd (db_Exec ?ins held)))"
  have i1: "db_Exec (INSERT ''job'' (owner (managers released 0)) True) released =
      (Inl ?dup, snd (db_Exec ?ins released))"
    by (simp add: run_defs)
  have g1: "getExistingByName 0 ''job'' (snd (db_Exec ?ins released)) =
      (Inr (job_of_A\<lparr>InUse := False, LastError := ''disk full''\<rparr>), ?r2)"
    by (simp add: run_defs)
  have v1: "isValid (Some (job_of_A\<lparr>InUse := False, LastError := ''disk full''\<rparr>)) ''job'' 5 ?r2 \<noteq> None"
    by (simp add: isValid_def job_of_A_def)
  have t1: "fst (takeover 0 ''job'' ''A'' True ?r2) = None"
    by (simp add: run_defs)
  have i2: "db_Exec (INSERT ''job'' (owner (managers held 0)) True) held =
      (Inl ?dup, snd (db_Exec ?ins held))"
    by (simp add: run_defs)
  have g2: "getExistingByName 0 ''job'' (snd (db_Exec ?ins held)) = (Inr job_of_A, ?h2)"
    by (simp add: run_defs)
  have v2: "isValid (Some job_of_A) ''job'' 5 ?h2 = None"
    by (simp add: run_defs)
  have c2: "clock ?h2 = 0"
    by (simp add: run_defs snd_db_Get snd_db_Exec)
  have o: "owner (managers released 0) = ''B''" "owner (managers held 0) = ''B''"
    "trace released = []"
    by (simp_all add: released_def held_def quiet_def)
  from contention_resolution [OF i1 g1, of None 5 released] v1
  have "Lock 0 ''job'' 5 released =
      (case fst (takeover 0 ''job'' ''A'' True ?r2) of
         Some err \<Rightarrow>
           Inl (Errorf (''unable to take over lock '' @ apos @ ''job'' @ apos @ '': '' @ Error err))
       | None \<Rightarrow> Inr \<lparr>rl = 0, name = ''job'', timeout = 5\<rparr>,
       snd (takeover 0 ''job'' ''A'' True ?r2))"
    and "trace (snd (Lock 0 ''job'' 5 released)) =
      trace ?r2 @ [Exec (UPDATE [SetOwner ''B'', SetInUse True] [NameEq ''job'', OwnerEq ''A''])]"
    by (simp_all add: o job_of_A_def takeover_query_def)
  with t1 o have forced: "fst (Lock 0 ''job'' 5 released) = Inr \<lparr>rl = 0, name = ''job'', timeout = 5\<rparr>"
    "trace (snd (Lock 0 ''job'' 5 released)) =
       [Exec (INSERT ''job'' ''B'' True), Get (SELECT_ALL [NameEq ''job'']),
        Exec (UPDATE [SetOwner ''B'', SetInUse True] [NameEq ''job'', OwnerEq ''A''])]"
    by simp_all
  from contention_resolution [OF i2 g2, of None 5 held] v2 c2
  have valid: "Lock 0 ''job'' 5 held = Lock_poll 0 ''job'' ''A'' 5 5 ?h2"
    by (simp add: job_of_A_def)
  let ?a2 = "snd (getExistingByName 0 ''job'' (snd (db_Exec ?ins abandoned)))"
  have i3: "db_Exec (INSERT ''job'' (owner (managers abandoned 0)) True) abandoned =
      (Inl ?dup, snd (db_Exec ?ins abandoned))"
    by (simp add: run_defs)
  have g3: "getExistingByName 0 ''job'' (snd (db_Exec ?ins abandoned)) = (Inr job_of_A, ?a2)"
    by (simp add: run_defs)
  have v3: "isValid (Some job_of_A) ''job'' 5 ?a2 \<noteq> None"
    by (simp add: run_defs snd_db_Get snd_db_Exec)
  have t3: "fst (takeover 0 ''job'' ''A'' True ?a2) = None"
    by (simp add: run_defs)
  have o3: "owner (managers abandoned 0) = ''B''" "trace abandoned = []"
    by (simp_all add: abandoned_def held_def quiet_def)
  from contention_resolution [OF i3 g3, of None 5 abandoned] v3
  have "Lock 0 ''job'' 5 abandoned =
      (case fst (takeover 0 ''job'' ''A'' True ?a2) of
         Some err \<Rightarrow>
           Inl (Errorf (''unable to take over lock '' @ apos @ ''job'' @ apos @ '': '' @ Error err))
       | None \<Rightarrow> Inr \<lparr>rl = 0, name = ''job'', timeout = 5\<rparr>,
       snd (takeover 0 ''job'' ''A'' True ?a2))"
    and "trace (snd (Lock 0 ''job'' 5 abandoned)) =
      trace ?a2 @ [Exec (UPDATE [SetOwner ''B'', SetInUse True] [NameEq ''job'', OwnerEq ''A''])]"
    by (simp_all add: o3 job_of_A_def takeover_query_def)
  with t3 o3 have stale: "fst (Lock 0 ''job'' 5 abandoned) = Inr \<lparr>rl = 0, name = ''job'', timeout = 5\<rparr>"
    "trace (snd (Lock 0 ''job'' 5 abandoned)) =
       [Exec (INSERT ''job'' ''B'' True), Get (SELECT_ALL [NameEq ''job'']),
        Exec (UPDATE [SetOwner ''B'', SetInUse True] [NameEq ''job'', OwnerEq ''A''])]"
    by simp_all
  from forced valid stale show ?thesis
    by simp
qed

subsection \<open>The poll loop\<close>

text \<open>
  C3. When the existing record is valid, \<^verbatim>\<open>Lock\<close> runs some number \<open>k\<close> of rounds,
  each one sleep of \<open>PollInterval\<close> followed by one guarded takeover, and ends in one of
  two ways: a guarded takeover succeeded and the handle for the requested name and timeout
  is returned, or the timer has fired and \<open>AcquireTimeoutErr\<close> is returned. No other
  error comes out of the loop. A round starts only while the timer has not fired, so there
  are at most as many rounds as poll intervals begun within the timeout.
\<close>

theorem poll_loop_outcome:
  assumes "db_Exec (INSERT s (owner (managers w p)) True) w = (Inl (MySQLError 1062 m), w1)"
    and "getExistingByName p s w1 = (Inr e, w2)"
    and "isValid (Some e) s t w2 = None"
  shows "\<exists>k. ((fst (Lock p s t w) = Inr \<lparr>rl = p, name = s, timeout = t\<rparr> \<and> 0 < k \<and>
               (\<exists>v. fst (takeover p s (Owner e) False (time_Sleep PollInterval v)) = None \<and>
                    snd (Lock p s t w) =
                      snd (takeover p s (Owner e) False (time_Sleep PollInterval v)))) \<or>
              (fst (Lock p s t w) = Inl AcquireTimeoutErr \<and>
               clock w2 + sint t \<le> clock (snd (Lock p s t w)))) \<and>
             trace (snd (Lock p s t w)) =
               trace w2 @ concat (replicate k
                 [Sleep PollInterval,
                  Exec (UPDATE [SetOwner (owner (managers w p)), SetInUse True]
                          [NameEq s, InUseEq False, OwnerEq (Owner e)])]) \<and>
             (0 < k \<longrightarrow> (int k - 1) * PollInterval < sint t)"
proof -
  have eq: "Lock p s t w = Lock_poll p s (Owner e) t (clock w2 + sint t) w2"
    using Lock_valid [OF assms] by (simp add: time_NewTimer_def)
  have "managers w2 = managers w"
    using assms(1,2) by (auto dest!: db_Exec_snd getExistingByName_snd)
  with Lock_poll_rounds [of p s "Owner e" t "clock w2 + sint t" w2]
  show ?thesis
    unfolding eq by (simp add: takeover_query_def) blast
qed

theorem poll_loop_outcome_witness:
  "fst (Lock 0 ''job'' 2000000000 held) = Inl AcquireTimeoutErr \<and>
   2000000000 \<le> clock (snd (Lock 0 ''job'' 2000000000 held)) \<and>
   trace (snd (Lock 0 ''job'' 2000000000 held)) =
     [Exec (INSERT ''job'' ''B'' True), Get (SELECT_ALL [NameEq ''job'']),
      Sleep 1000000000,
      Exec (UPDATE [SetOwner ''B'', SetInUse True] [NameEq ''job'', InUseEq False, OwnerEq ''A'']),
      Sleep 1000000000,
      Exec (UPDATE [SetOwner ''B'', SetInUse True] [NameEq ''job'', InUseEq False, OwnerEq ''A''])]"
proof -
  let ?ins = "INSERT ''job'' ''B'' True"
  let ?dup = "MySQLError 1062 (''Duplicate entry '' @ apos @ ''job'' @ apos @ '' for key '' @ apos @ ''name'' @ apos)"
  let ?w2 = "snd (getExistingByName 0 ''job'' (snd (db_Exec ?ins held)))"
  have i: "db_Exec (INSERT ''job'' (owner (managers held 0)) True) held =
      (Inl ?dup, snd (db_Exec ?ins held))"
    by (simp add: run_defs)
  have g: "getExistingByName 0 ''job'' (snd (db_Exec ?ins held)) = (Inr job_of_A, ?w2)"
    by (simp add: run_defs)
  have v: "isValid (Some job_of_A) ''job'' 2000000000 ?w2 = None"
    by (simp add: run_defs)
  have c: "clock ?w2 = 0"
    by (simp add: run_defs snd_db_Get snd_db_Exec)
  have r: "fst (Lock 0 ''job'' 2000000000 held) = Inl AcquireTimeoutErr"
    by (simp add: Lock_run)
  have tr: "trace (snd (Lock 0 ''job'' 2000000000 held)) =
     [Exec (INSERT ''job'' ''B'' True), Get (SELECT_ALL [NameEq ''job'']),
      Sleep 1000000000,
      Exec (UPDATE [SetOwner ''B'', SetInUse True] [NameEq ''job'', InUseEq False, OwnerEq ''A'']),
      Sleep 1000000000,
      Exec (UPDATE [SetOwner ''B'', SetInUse True] [NameEq ''job'', InUseEq False, OwnerEq ''A''])]"
    by (simp add: Lock_run)
  from poll_loop_outcome [OF i g v] r c
  have "2000000000 \<le> clock (snd (Lock 0 ''job'' 2000000000 held))"
    by auto
  with r tr show ?thesis
    by simp
qed

subsection \<open>Release\<close>

text \<open>
  C4. \<^verbatim>\<open>Unlock\<close> sends one update, guarded by the handle's name and its manager's
  token, that marks the row not in use and stores the text of the error (the empty string
  for nil). It returns nil exactly when the store carries the update out and reports one
  row affected; any other count, a failed statement and a failed count give an error.
\<close>

theorem Unlock_contract:
  fixes l :: Lock and lastError :: "error option" and w :: world
  defines "self \<equiv> owner (managers w (rl l))"
    and "msg \<equiv> (case lastError of None \<Rightarrow> [] | Some e \<Rightarrow> Error e)"
  defines "affected \<equiv>
      length (filter (\<lambda>e. Name e = name l \<and> Owner e = self \<and>
                          (found_rows w \<or> InUse e \<or> LastError e \<noteq> msg)) (table (arrive w)))"
  shows "trace (snd (Unlock l lastError w)) =
      trace w @ [Exec (UPDATE [SetInUse False, SetLastError msg] [NameEq (name l), OwnerEq self])] \<and>
    (fst (Unlock l lastError w) = None) = (next_fault w = Healthy \<and> affected = 1) \<and>
    (next_fault w = Healthy \<and> affected \<noteq> 1 \<longrightarrow>
       fst (Unlock l lastError w) =
         Some (Errorf (''unexpected number of affected rows after unlock ('' @
                       int_decimal (int affected) @ '')''))) \<and>
    (\<forall>x. next_fault w = Fails x \<longrightarrow>
       fst (Unlock l lastError w) =
         Some (Errorf (''unable to unlock '' @ apos @ name l @ apos @ '': '' @ Error (of_db_error x))) \<and>
       table (snd (Unlock l lastError w)) = table (arrive w)) \<and>
    (\<forall>x. next_fault w = CountFails x \<longrightarrow>
       fst (Unlock l lastError w) =
         Some (Errorf (''unable to determine affected rows after unlock for '' @
                       apos @ name l @ apos @ '': '' @ Error (of_db_error x)))) \<and>
    ((\<forall>x. next_fault w \<noteq> Fails x) \<longrightarrow>
       table (snd (Unlock l lastError w)) =
         map (\<lambda>e. if Name e = name l \<and> Owner e = self \<and> (InUse e \<or> LastError e \<noteq> msg)
                  then e\<lparr>InUse := False, LastError := msg, LastUsed := clock (arrive w)\<rparr> else e)
           (table (arrive w)))"
proof -
  have count: "length (filter (counted (found_rows w) [SetInUse False, SetLastError msg]
        [NameEq (name l), OwnerEq self]) (table (arrive w))) = affected"
    unfolding affected_def
    by (rule arg_cong [where f = length], rule filter_cong) (auto simp: unlock_counted)
  have res: "fst (Unlock l lastError w) =
      (case next_fault w of
         Healthy \<Rightarrow>
           if affected \<noteq> 1
           then Some (Errorf (''unexpected number of affected rows after unlock ('' @
                              int_decimal (int affected) @ '')''))
           else None
       | Fails x \<Rightarrow>
           Some (Errorf (''unable to unlock '' @ apos @ name l @ apos @ '': '' @ Error (of_db_error x)))
       | CountFails x \<Rightarrow>
           Some (Errorf (''unable to determine affected rows after unlock for '' @
                         apos @ name l @ apos @ '': '' @ Error (of_db_error x))))"
    using count
    by (cases "next_fault w") (simp_all add: fst_Unlock db_Exec_UPDATE self_def msg_def)
  have tab: "table (snd (Unlock l lastError w)) =
      (if \<exists>x. next_fault w = Fails x then table (arrive w)
       else map (\<lambda>e. if Name e = name l \<and> Owner e = self \<and> (InUse e \<or> LastError e \<noteq> msg)
                  then e\<lparr>InUse := False, LastError := msg, LastUsed := clock (arrive w)\<rparr> else e)
           (table (arrive w)))"
    by (auto simp: snd_Unlock table_db_Exec_UPDATE takeover_matches unlock_written self_def msg_def)
  have tr: "trace (snd (Unlock l lastError w)) =
      trace w @ [Exec (UPDATE [SetInUse False, SetLastError msg] [NameEq (name l), OwnerEq self])]"
    by (simp add: self_def msg_def)
  show ?thesis
    unfolding res tab tr by (cases "next_fault w") auto
qed

theorem Unlock_contract_witness:
  "fst (Unlock \<lparr>rl = 1, name = ''job'', timeout = 5\<rparr> (Some (Errorf ''disk full'')) both) = None \<and>
   table (snd (Unlock \<lparr>rl = 1, name = ''job'', timeout = 5\<rparr> (Some (Errorf ''disk full'')) both)) =
     [\<lparr>ID = 1, Name = ''job'', Owner = ''A'', InUse = False, LastError = ''disk full'',
       LastUsed = 0, CreatedAt = 0\<rparr>] \<and>
   trace (snd (Unlock \<lparr>rl = 1, name = ''job'', timeout = 5\<rparr> (Some (Errorf ''disk full'')) both)) =
     [Exec (UPDATE [SetInUse False, SetLastError ''disk full''] [NameEq ''job'', OwnerEq ''A''])] \<and>
   fst (Unlock \<lparr>rl = 0, name = ''job'', timeout = 5\<rparr> None both) =
     Some (Errorf ''unexpected number of affected rows after unlock (0)'') \<and>
   fst (Unlock \<lparr>rl = 1, name = ''job'', timeout = 5\<rparr> None
          (both\<lparr>script := [calm\<lparr>fault := Fails (Other ''bad connection'')\<rparr>]\<rparr>)) =
     Some (Errorf (''unable to unlock '' @ apos @ ''job'' @ apos @ '': bad connection''))"
  using Unlock_contract [of "\<lparr>rl = 1, name = ''job'', timeout = 5\<rparr>" "Some (Errorf ''disk full'')" both]
    Unlock_contract [of "\<lparr>rl = 0, name = ''job'', timeout = 5\<rparr>" None both]
    Unlock_contract [of "\<lparr>rl = 1, name = ''job'', timeout = 5\<rparr>" None
      "both\<lparr>script := [calm\<lparr>fault := Fails (Other ''bad connection'')\<rparr>]\<rparr>"]
  by (simp add: next_fault_def arrive_def run_others_def both_def held_def quiet_def job_of_A_def
      calm_def int_decimal_def nat_decimal.simps digit_char_def)

subsection \<open>The handoff of the last error\<close>

text \<open>
  C5, as amended. Let a holder's \<^verbatim>\<open>Unlock(E)\<close> succeed in a table whose names are
  unique, and let the store be quiet afterwards (no other client, no failure). Then the next
  acquirer of the same name gets the lock, whether it calls \<^verbatim>\<open>Lock\<close> afresh or is
  already polling with the holder as the owner it observed and its timer not yet fired; and
  \<^verbatim>\<open>LastError\<close> on its handle is nil when \<open>E\<close> is nil or has an empty message,
  and otherwise an error whose message is the message of \<open>E\<close>. \<^verbatim>\<open>LastError\<close>
  returns nil only when the read succeeded and found an empty text; a failed read gives an
  error of its own.
\<close>

theorem handoff_round_trip:
  assumes "Unlock l E w = (None, w1)"
    and "distinct (map Name (table w))"
    and "script w1 = []"
  shows "(\<exists>w2. Lock p (name l) t w1 = (Inr \<lparr>rl = p, name = name l, timeout = t\<rparr>, w2) \<and>
              fst (Lock_LastError \<lparr>rl = p, name = name l, timeout = t\<rparr> w2) =
                (case E of
                   None \<Rightarrow> None
                 | Some x \<Rightarrow> if Error x = [] then None else Some (Errorf (Error x)))) \<and>
         (\<not> d \<le> clock w1 \<longrightarrow>
            (\<exists>w2. Lock_poll p (name l) (owner (managers w (rl l))) t d w1 =
                    (Inr \<lparr>rl = p, name = name l, timeout = t\<rparr>, w2) \<and>
                  fst (Lock_LastError \<lparr>rl = p, name = name l, timeout = t\<rparr> w2) =
                    (case E of
                       None \<Rightarrow> None
                     | Some x \<Rightarrow> if Error x = [] then None else Some (Errorf (Error x))))) \<and>
         (fst (Lock_LastError h v) = None) =
           (\<exists>row. fst (db_Get (SELECT_last_error
                                  [NameEq (name h), OwnerEq (owner (managers v (rl h)))]) v) = Inr row \<and>
                  LastError row = []) \<and>
         (\<forall>x. next_fault v = Fails x \<longrightarrow>
            fst (Lock_LastError h v) =
              Some (Errorf (''unexpected error while fetching last error state: '' @
                            Error (of_db_error x))))"
proof -
  let ?h = "\<lparr>rl = p, name = name l, timeout = t\<rparr>"
  let ?read = "case E of None \<Rightarrow> None | Some x \<Rightarrow> if Error x = [] then None else Some (Errorf (Error x))"
  from Unlock_success [OF assms(1,2)] obtain e
    where e: "filter (\<lambda>r. Name r = name l) (table w1) = [e]" "\<not> InUse e"
      "LastError e = (case E of None \<Rightarrow> [] | Some x \<Rightarrow> Error x)"
      "Owner e = owner (managers w (rl l))"
    by blast
  have same: "(if LastError e = [] then None else Some (Errorf (LastError e))) = ?read"
    using e(3) by (cases E) simp_all
  have fresh: "\<exists>w2. Lock p (name l) t w1 = (Inr ?h, w2) \<and> fst (Lock_LastError ?h w2) = ?read"
  proof -
    from Lock_on_released [OF e(1,2) assms(3), of p t] obtain w2
      where w2: "Lock p (name l) t w1 = (Inr ?h, w2)"
        "script w2 = []" "managers w2 = managers w1"
        "filter (\<lambda>r. Name r = name l) (table w2) =
           [e\<lparr>Owner := owner (managers w1 p), InUse := True, LastUsed := clock w1\<rparr>]"
      by blast
    from LastError_of_sole_row
      [of ?h w2 "e\<lparr>Owner := owner (managers w1 p), InUse := True, LastUsed := clock w1\<rparr>"]
      w2(2-4)
    have "fst (Lock_LastError ?h w2) = (if LastError e = [] then None else Some (Errorf (LastError e)))"
      by simp
    with w2(1) same show ?thesis
      by auto
  qed
  have polling: "\<exists>w2. Lock_poll p (name l) (owner (managers w (rl l))) t d w1 = (Inr ?h, w2) \<and>
      fst (Lock_LastError ?h w2) = ?read" if "\<not> d \<le> clock w1"
  proof -
    from Lock_poll_on_released [OF e(1,2,4) assms(3) that, of p t] obtain w2
      where w2: "Lock_poll p (name l) (owner (managers w (rl l))) t d w1 = (Inr ?h, w2)"
        "script w2 = []" "managers w2 = managers w1"
        "filter (\<lambda>r. Name r = name l) (table w2) =
           [e\<lparr>Owner := owner (managers w1 p), InUse := True, LastUsed := clock w1 + PollInterval\<rparr>]"
      by blast
    from LastError_of_sole_row
      [of ?h w2
          "e\<lparr>Owner := owner (managers w1 p), InUse := True, LastUsed := clock w1 + PollInterval\<rparr>"]
      w2(2-4)
    have "fst (Lock_LastError ?h w2) = (if LastError e = [] then None else Some (Errorf (LastError e)))"
      by simp
    with w2(1) same show ?thesis
      by auto
  qed
  have nil_read: "(fst (Lock_LastError h v) = None) =
      (\<exists>row. fst (db_Get (SELECT_last_error
                             [NameEq (name h), OwnerEq (owner (managers v (rl h)))]) v) = Inr row \<and>
             LastError row = [])"
    by (cases "db_Get (SELECT_last_error [NameEq (name h), OwnerEq (owner (managers v (rl h)))]) v")
      (auto simp: Lock_LastError_def split: sum.splits)
  have failed_read: "\<forall>x. next_fault v = Fails x \<longrightarrow>
      fst (Lock_LastError h v) =
        Some (Errorf (''unexpected error while fetching last error state: '' @
                      Error (of_db_error x)))"
    by (simp add: Lock_LastError_def db_Get_def)
  from fresh polling nil_read failed_read show ?thesis
    by (intro conjI impI)
qed

theorem handoff_round_trip_witness:
  "fst (Unlock \<lparr>rl = 1, name = ''job'', timeout = 5\<rparr> (Some (Errorf ''disk full'')) both) = None \<and>
   fst (Lock 0 ''job'' 9
          (snd (Unlock \<lparr>rl = 1, name = ''job'', timeout = 5\<rparr> (Some (Errorf ''disk full'')) both))) =
     Inr \<lparr>rl = 0, name = ''job'', timeout = 9\<rparr> \<and>
   fst (Lock_LastError \<lparr>rl = 0, name = ''job'', timeout = 9\<rparr>
          (snd (Lock 0 ''job'' 9
             (snd (Unlock \<lparr>rl = 1, name = ''job'', timeout = 5\<rparr> (Some (Errorf ''disk full'')) both))))) =
     Some (Errorf ''disk full'') \<and>
   fst (Lock_LastError \<lparr>rl = 0, name = ''job'', timeout = 9\<rparr>
          (snd (Lock_poll 0 ''job'' ''A'' 9 1
             (snd (Unlock \<lparr>rl = 1, name = ''job'', timeout = 5\<rparr> (Some (Errorf ''disk full'')) both))))) =
     Some (Errorf ''disk full'')"
proof -
  let ?hA = "\<lparr>rl = 1, name = ''job'', timeout = 5\<rparr>"
  let ?hB = "\<lparr>rl = 0, name = ''job'', timeout = 9\<rparr>"
  let ?E = "Some (Errorf ''disk full'')"
  let ?w1 = "snd (Unlock ?hA ?E both)"
  have u: "fst (Unlock ?hA ?E both) = None"
    by (simp add: Unlock_def both_def run_defs)
  then have u': "Unlock ?hA ?E both = (None, ?w1)"
    by (simp add: prod_eq_iff)
  have d: "distinct (map Name (table both))"
    by (simp add: both_def run_defs)
  have q: "script ?w1 = []"
    by (simp add: script_Unlock both_def run_defs)
  have c: "\<not> 1 \<le> clock ?w1" "owner (managers both 1) = ''A''"
    by (simp_all add: snd_Unlock snd_db_Exec both_def run_defs)
  note rt = handoff_round_trip [OF u' d q, of 0 9 1 ?hA both]
  from rt [THEN conjunct1]
  obtain w2 where "Lock 0 ''job'' 9 ?w1 = (Inr ?hB, w2)"
    and "fst (Lock_LastError ?hB w2) = Some (Errorf ''disk full'')"
    by auto
  moreover from rt [THEN conjunct2, THEN conjunct1] c
  obtain w3 where "Lock_poll 0 ''job'' ''A'' 9 1 ?w1 = (Inr ?hB, w3)"
    and "fst (Lock_LastError ?hB w3) = Some (Errorf ''disk full'')"
    by auto
  ultimately show ?thesis
    using u by simp
qed

text \<open>
  An error with an empty message does not come back: the next holder reads nil.
\<close>

theorem handoff_empty_message_counterexample:
  "fst (Unlock \<lparr>rl = 1, name = ''job'', timeout = 5\<rparr> (Some (Errorf [])) both) = None \<and>
   fst (Lock 0 ''job'' 9
          (snd (Unlock \<lparr>rl = 1, name = ''job'', timeout = 5\<rparr> (Some (Errorf [])) both))) =
     Inr \<lparr>rl = 0, name = ''job'', timeout = 9\<rparr> \<and>
   fst (Lock_LastError \<lparr>rl = 0, name = ''job'', timeout = 9\<rparr>
          (snd (Lock 0 ''job'' 9
             (snd (Unlock \<lparr>rl = 1, name = ''job'', timeout = 5\<rparr> (Some (Errorf [])) both))))) =
     None"
  by (simp add: Unlock_def Lock_LastError_def both_def Lock_run)

subsection \<open>Which errors are returned and which are retried\<close>

text \<open>
  C6, as amended. Outside the poll loop every failure is returned at once, wrapped, and
  nothing is tried again: a failure of the insert other than the uniqueness violation, a
  failure of the fetch, and a failure of the forced takeover. Inside the poll loop every
  failure of the guarded takeover, whatever its cause, starts the next round, and the
  loop returns a handle or \<open>AcquireTimeoutErr\<close> only.
\<close>

theorem Lock_error_propagation:
  "(db_Exec (INSERT s (owner (managers w p)) True) w = (Inl err, w1) \<and>
    (\<forall>m. err \<noteq> MySQLError 1062 m) \<longrightarrow>
      Lock p s t w =
        (Inl (Errorf (''unable to insert lock for '' @ apos @ s @ apos @ '': '' @ Error err)), w1) \<and>
      trace w1 = trace w @ [Exec (INSERT s (owner (managers w p)) True)]) \<and>
   (db_Exec (INSERT s (owner (managers w p)) True) w = (Inl (MySQLError 1062 m), w1) \<and>
    getExistingByName p s w1 = (Inl err, w2) \<longrightarrow>
      Lock p s t w =
        (Inl (Errorf (if err = KeyNotFoundErr then ''lock no longer exists''
                      else ''unable to fetch existing lock: '' @ Error err)), w2) \<and>
      trace w2 =
        trace w @ [Exec (INSERT s (owner (managers w p)) True), Get (SELECT_ALL [NameEq s])]) \<and>
   (db_Exec (INSERT s (owner (managers w p)) True) w = (Inl (MySQLError 1062 m), w1) \<and>
    getExistingByName p s w1 = (Inr e, w2) \<and> isValid (Some e) s t w2 \<noteq> None \<and>
    takeover p s (Owner e) True w2 = (Some err, w3) \<longrightarrow>
      Lock p s t w =
        (Inl (Errorf (''unable to take over lock '' @ apos @ s @ apos @ '': '' @ Error err)), w3) \<and>
      trace w3 =
        trace w @ [Exec (INSERT s (owner (managers w p)) True), Get (SELECT_ALL [NameEq s]),
                   Exec (UPDATE [SetOwner (owner (managers w p)), SetInUse True]
                           [NameEq s, OwnerEq (Owner e)])]) \<and>
   (\<not> d \<le> clock v \<and> takeover p s obs False (time_Sleep PollInterval v) = (Some err, v') \<longrightarrow>
      Lock_poll p s obs t d v = Lock_poll p s obs t d v') \<and>
   (db_Exec (INSERT s (owner (managers w p)) True) w = (Inl (MySQLError 1062 m), w1) \<and>
    getExistingByName p s w1 = (Inr e, w2) \<and> isValid (Some e) s t w2 = None \<longrightarrow>
      fst (Lock p s t w) = Inr \<lparr>rl = p, name = s, timeout = t\<rparr> \<or>
      fst (Lock p s t w) = Inl AcquireTimeoutErr)"
proof (intro conjI impI; (elim conjE)?)
  assume ins: "db_Exec (INSERT s (owner (managers w p)) True) w = (Inl err, w1)"
    and "\<forall>m. err \<noteq> MySQLError 1062 m"
  then show "Lock p s t w =
      (Inl (Errorf (''unable to insert lock for '' @ apos @ s @ apos @ '': '' @ Error err)), w1)"
    by (rule Lock_insert_fail)
  from db_Exec_snd [OF ins]
  show "trace w1 = trace w @ [Exec (INSERT s (owner (managers w p)) True)]"
    by simp
next
  assume ins: "db_Exec (INSERT s (owner (managers w p)) True) w = (Inl (MySQLError 1062 m), w1)"
    and get: "getExistingByName p s w1 = (Inl err, w2)"
  then show "Lock p s t w =
      (Inl (Errorf (if err = KeyNotFoundErr then ''lock no longer exists''
                    else ''unable to fetch existing lock: '' @ Error err)), w2)"
    by (rule Lock_fetch_fail)
  from db_Exec_snd [OF ins] getExistingByName_snd [OF get]
  show "trace w2 =
      trace w @ [Exec (INSERT s (owner (managers w p)) True), Get (SELECT_ALL [NameEq s])]"
    by simp
next
  assume ins: "db_Exec (INSERT s (owner (managers w p)) True) w = (Inl (MySQLError 1062 m), w1)"
    and get: "getExistingByName p s w1 = (Inr e, w2)"
    and "isValid (Some e) s t w2 \<noteq> None"
    and tk: "takeover p s (Owner e) True w2 = (Some err, w3)"
  then obtain y where "isValid (Some e) s t w2 = Some y"
    by blast
  from Lock_forced [OF ins get this] tk
  show "Lock p s t w =
      (Inl (Errorf (''unable to take over lock '' @ apos @ s @ apos @ '': '' @ Error err)), w3)"
    by simp
  have "w3 = snd (takeover p s (Owner e) True w2)"
    by (simp add: tk)
  with db_Exec_snd [OF ins] getExistingByName_snd [OF get]
  show "trace w3 =
      trace w @ [Exec (INSERT s (owner (managers w p)) True), Get (SELECT_ALL [NameEq s]),
                 Exec (UPDATE [SetOwner (owner (managers w p)), SetInUse True]
                         [NameEq s, OwnerEq (Owner e)])]"
    by (simp add: takeover_query_def)
next
  assume "\<not> d \<le> clock v"
    and "takeover p s obs False (time_Sleep PollInterval v) = (Some err, v')"
  then show "Lock_poll p s obs t d v = Lock_poll p s obs t d v'"
    using Lock_poll_retry [of d v p s obs t] by simp
next
  assume "db_Exec (INSERT s (owner (managers w p)) True) w = (Inl (MySQLError 1062 m), w1)"
    and "getExistingByName p s w1 = (Inr e, w2)"
    and "isValid (Some e) s t w2 = None"
  then have "Lock p s t w = Lock_poll p s (Owner e) t (time_NewTimer t w2) w2"
    by (rule Lock_valid)
  with Lock_poll_outcome [of p s "Owner e" t "time_NewTimer t w2" w2]
  show "fst (Lock p s t w) = Inr \<lparr>rl = p, name = s, timeout = t\<rparr> \<or>
      fst (Lock p s t w) = Inl AcquireTimeoutErr"
    by auto
qed

theorem Lock_error_propagation_witness:
  "fst (Lock 0 ''job'' 5 down) =
     Inl (Errorf (''unable to insert lock for '' @ apos @ ''job'' @ apos @ '': bad connection'')) \<and>
   trace (snd (Lock 0 ''job'' 5 down)) = [Exec (INSERT ''job'' ''B'' True)] \<and>
   fst (Lock 0 ''job'' 5 stolen) =
     Inl (Errorf (''unable to take over lock '' @ apos @ ''job'' @ apos @
                  '': unable to takeover lock, still in use'')) \<and>
   trace (snd (Lock 0 ''job'' 5 stolen)) =
     [Exec (INSERT ''job'' ''B'' True), Get (SELECT_ALL [NameEq ''job'']),
      Exec (UPDATE [SetOwner ''B'', SetInUse True] [NameEq ''job'', OwnerEq ''A''])] \<and>
   (fst (Lock 0 ''job'' 5000000000 flaky) = Inr \<lparr>rl = 0, name = ''job'', timeout = 5000000000\<rparr> \<or>
    fst (Lock 0 ''job'' 5000000000 flaky) = Inl AcquireTimeoutErr) \<and>
   fst (Lock 0 ''job'' 5 (held\<lparr>script := [calm, calm\<lparr>fault := Fails (Other ''bad connection'')\<rparr>]\<rparr>)) =
     Inl (Errorf ''unable to fetch existing lock: bad connection'') \<and>
   Lock_poll 0 ''job'' ''A'' 5000000000 5000000000
       (snd (getExistingByName 0 ''job'' (snd (db_Exec (INSERT ''job'' ''B'' True) flaky)))) =
     Lock_poll 0 ''job'' ''A'' 5000000000 5000000000
       (snd (takeover 0 ''job'' ''A'' False
          (time_Sleep PollInterval
             (snd (getExistingByName 0 ''job'' (snd (db_Exec (INSERT ''job'' ''B'' True) flaky)))))))"
proof -
  let ?ins = "INSERT ''job'' ''B'' True"
  let ?dup = "MySQLError 1062 (''Duplicate entry '' @ apos @ ''job'' @ apos @ '' for key '' @ apos @ ''name'' @ apos)"
  let ?row = "job_of_A\<lparr>InUse := False, LastError := ''disk full''\<rparr>"
  let ?s2 = "snd (getExistingByName 0 ''job'' (snd (db_Exec ?ins stolen)))"
  let ?f2 = "snd (getExistingByName 0 ''job'' (snd (db_Exec ?ins flaky)))"
  have o: "owner (managers down 0) = ''B''" "owner (managers stolen 0) = ''B''"
    "owner (managers flaky 0) = ''B''" "trace down = []" "trace stolen = []"
    by (simp_all add: Lock_run)
  have d1: "db_Exec ?ins down = (Inl (Errorf ''bad connection''), snd (db_Exec ?ins down))"
    by (simp add: Lock_run)
  have s1: "db_Exec ?ins stolen = (Inl ?dup, snd (db_Exec ?ins stolen))"
    by (simp add: Lock_run)
  have s2: "getExistingByName 0 ''job'' (snd (db_Exec ?ins stolen)) = (Inr ?row, ?s2)"
    by (simp add: Lock_run)
  have s3: "isValid (Some ?row) ''job'' 5 ?s2 \<noteq> None"
    by (simp add: isValid_def job_of_A_def)
  have s4: "takeover 0 ''job'' ''A'' True ?s2 =
      (Some (Errorf ''unable to takeover lock, still in use''), snd (takeover 0 ''job'' ''A'' True ?s2))"
    by (simp add: Lock_run)
  have f1: "db_Exec ?ins flaky = (Inl ?dup, snd (db_Exec ?ins flaky))"
    by (simp add: Lock_run)
  have f2: "getExistingByName 0 ''job'' (snd (db_Exec ?ins flaky)) = (Inr job_of_A, ?f2)"
    by (simp add: Lock_run)
  have f3: "isValid (Some job_of_A) ''job'' 5000000000 ?f2 = None"
    by (simp add: Lock_run)
  from Lock_error_propagation
    [of "''job''" down 0 "Errorf ''bad connection''" "snd (db_Exec ?ins down)" 5]
    d1 o
  have a: "fst (Lock 0 ''job'' 5 down) =
      Inl (Errorf (''unable to insert lock for '' @ apos @ ''job'' @ apos @ '': bad connection''))"
    "trace (snd (Lock 0 ''job'' 5 down)) = [Exec ?ins]"
    by simp_all
  from Lock_error_propagation
    [of "''job''" stolen 0 "Errorf ''unable to takeover lock, still in use''"
        "snd (db_Exec ?ins stolen)" 5 _ ?s2 ?row "snd (takeover 0 ''job'' ''A'' True ?s2)"]
    s1 s2 s3 s4 o
  have b: "fst (Lock 0 ''job'' 5 stolen) =
      Inl (Errorf (''unable to take over lock '' @ apos @ ''job'' @ apos @
                   '': unable to takeover lock, still in use''))"
    "trace (snd (Lock 0 ''job'' 5 stolen)) =
      [Exec ?ins, Get (SELECT_ALL [NameEq ''job'']),
       Exec (UPDATE [SetOwner ''B'', SetInUse True] [NameEq ''job'', OwnerEq ''A''])]"
    by (simp_all add: job_of_A_def)
  from Lock_error_propagation
    [of "''job''" flaky 0 _ "snd (db_Exec ?ins flaky)" 5000000000 _ ?f2 job_of_A]
    f1 f2 f3 o
  have c: "fst (Lock 0 ''job'' 5000000000 flaky) = Inr \<lparr>rl = 0, name = ''job'', timeout = 5000000000\<rparr> \<or>
      fst (Lock 0 ''job'' 5000000000 flaky) = Inl AcquireTimeoutErr"
    by simp
  let ?cut = "held\<lparr>script := [calm, calm\<lparr>fault := Fails (Other ''bad connection'')\<rparr>]\<rparr>"
  have k1: "db_Exec ?ins ?cut = (Inl ?dup, snd (db_Exec ?ins ?cut))"
    by (simp add: Lock_run)
  have k2: "getExistingByName 0 ''job'' (snd (db_Exec ?ins ?cut)) =
      (Inl (Errorf ''bad connection''), snd (getExistingByName 0 ''job'' (snd (db_Exec ?ins ?cut))))"
    by (simp add: Lock_run)
  have k3: "owner (managers ?cut 0) = ''B''"
    by (simp add: Lock_run)
  from Lock_error_propagation
    [of "''job''" ?cut 0 "Errorf ''bad connection''" "snd (db_Exec ?ins ?cut)" 5 _
        "snd (getExistingByName 0 ''job'' (snd (db_Exec ?ins ?cut)))"]
    k1 k2 k3
  have d: "fst (Lock 0 ''job'' 5 ?cut) = Inl (Errorf ''unable to fetch existing lock: bad connection'')"
    by simp
  have r1: "\<not> 5000000000 \<le> clock ?f2"
    by (simp add: Lock_run snd_db_Get snd_db_Exec)
  have r2: "takeover 0 ''job'' ''A'' False (time_Sleep PollInterval ?f2) =
      (Some (Errorf (''unable to take over '' @ apos @ ''job'' @ apos @ '': connection reset'')),
       snd (takeover 0 ''job'' ''A'' False (time_Sleep PollInterval ?f2)))"
    by (simp add: Lock_run)
  from Lock_error_propagation
    [where s = "''job''" and p = 0 and t = 5000000000 and d = 5000000000 and v = ?f2
       and obs = "''A''"
       and err = "Errorf (''unable to take over '' @ apos @ ''job'' @ apos @ '': connection reset'')"
       and v' = "snd (takeover 0 ''job'' ''A'' False (time_Sleep PollInterval ?f2))"]
    r1 r2
  have e: "Lock_poll 0 ''job'' ''A'' 5000000000 5000000000 ?f2 =
      Lock_poll 0 ''job'' ''A'' 5000000000 5000000000
        (snd (takeover 0 ''job'' ''A'' False (time_Sleep PollInterval ?f2)))"
    by simp
  from a b c d e show ?thesis
    by simp
qed

text \<open>
  A store failure inside the poll loop is not returned: the first guarded takeover meets
  a broken connection, the loop goes on, and the second round gets the lock.
\<close>

theorem poll_retries_store_failure_counterexample:
  "fst (takeover 0 ''job'' ''A'' False
         (time_Sleep PollInterval
            (snd (getExistingByName 0 ''job'' (snd (db_Exec (INSERT ''job'' ''B'' True) flaky)))))) =
     Some (Errorf (''unable to take over '' @ apos @ ''job'' @ apos @ '': connection reset'')) \<and>
   fst (Lock 0 ''job'' 5000000000 flaky) = Inr \<lparr>rl = 0, name = ''job'', timeout = 5000000000\<rparr> \<and>
   trace (snd (Lock 0 ''job'' 5000000000 flaky)) =
     [Exec (INSERT ''job'' ''B'' True), Get (SELECT_ALL [NameEq ''job'']),
      Sleep 1000000000,
      Exec (UPDATE [SetOwner ''B'', SetInUse True] [NameEq ''job'', InUseEq False, OwnerEq ''A'']),
      Sleep 1000000000,
      Exec (UPDATE [SetOwner ''B'', SetInUse True] [NameEq ''job'', InUseEq False, OwnerEq ''A''])]"
  by (simp add: Lock_run)

subsection \<open>The fast path\<close>

text \<open>
  C7. When the insert of the new record succeeds, \<^verbatim>\<open>Lock\<close> returns at once a
  handle with the requested name and timeout; the insert is its only store call: no
  fetch, no takeover, no sleep.
\<close>

theorem Lock_fast_path:
  assumes "db_Exec (INSERT s (owner (managers w p)) True) w = (Inr res, w1)"
  shows "Lock p s t w = (Inr \<lparr>rl = p, name = s, timeout = t\<rparr>, w1) \<and>
         trace w1 = trace w @ [Exec (INSERT s (owner (managers w p)) True)]"
proof
  show "Lock p s t w = (Inr \<lparr>rl = p, name = s, timeout = t\<rparr>, w1)"
    using assms by (rule Lock_insert_ok)
  have "trace (snd (db_Exec (INSERT s (owner (managers w p)) True) w)) =
          trace w @ [Exec (INSERT s (owner (managers w p)) True)]"
    by simp
  then show "trace w1 = trace w @ [Exec (INSERT s (owner (managers w p)) True)]"
    by (simp add: assms)
qed

theorem Lock_fast_path_witness:
  "fst (Lock 0 ''job'' 5 quiet) = Inr \<lparr>rl = 0, name = ''job'', timeout = 5\<rparr> \<and>
   trace (snd (Lock 0 ''job'' 5 quiet)) = [Exec (INSERT ''job'' ''B'' True)] \<and>
   table (snd (Lock 0 ''job'' 5 quiet)) =
     [\<lparr>ID = 1, Name = ''job'', Owner = ''B'', InUse = True, LastError = [], LastUsed = 0,
       CreatedAt = 0\<rparr>]"
proof -
  let ?w1 = "snd (db_Exec (INSERT ''job'' ''B'' True) quiet)"
  have ins: "db_Exec (INSERT ''job'' (owner (managers quiet 0)) True) quiet = (Inr (Inr 1), ?w1)"
    by (simp add: quiet_def store_defs)
  have "table ?w1 =
     [\<lparr>ID = 1, Name = ''job'', Owner = ''B'', InUse = True, LastError = [], LastUsed = 0,
       CreatedAt = 0\<rparr>]"
    by (simp add: quiet_def store_defs)
  with Lock_fast_path [OF ins, of 5] show ?thesis
    by (simp add: quiet_def)
qed

subsection \<open>The record vanished\<close>

text \<open>
  C8. On the contention path (the insert met the uniqueness violation), when the fetch
  finds no row, \<^verbatim>\<open>Lock\<close> fails with \<^verbatim>\<open>lock no longer exists\<close>; any other failure
  of the fetch is wrapped and returned. In both cases the insert and the fetch are the
  only store calls: the insert is not tried again.
\<close>

theorem Lock_record_vanished:
  assumes "db_Exec (INSERT s (owner (managers w p)) True) w = (Inl (MySQLError 1062 m), w1)"
    and "db_Get (SELECT_ALL [NameEq s]) w1 = (Inl err, w2)"
  shows "Lock p s t w =
           (Inl (Errorf (if err = ErrNoRows then ''lock no longer exists''
                         else ''unable to fetch existing lock: '' @ Error err)), w2) \<and>
         trace w2 =
           trace w @ [Exec (INSERT s (owner (managers w p)) True), Get (SELECT_ALL [NameEq s])]"
proof
  from db_Get_not_sentinel [of "SELECT_ALL [NameEq s]" w1] assms(2)
  have "err \<noteq> KeyNotFoundErr"
    by auto
  moreover from assms(2)
  have "getExistingByName p s w1 = (Inl (if err = ErrNoRows then KeyNotFoundErr else err), w2)"
    by (simp add: getExistingByName_def)
  ultimately show "Lock p s t w =
      (Inl (Errorf (if err = ErrNoRows then ''lock no longer exists''
                    else ''unable to fetch existing lock: '' @ Error err)), w2)"
    using Lock_fetch_fail [OF assms(1), of "if err = ErrNoRows then KeyNotFoundErr else err" w2 t]
    by (simp split: if_splits)
  have "trace (snd (db_Get (SELECT_ALL [NameEq s]) (snd (db_Exec (INSERT s (owner (managers w p)) True) w)))) =
      trace w @ [Exec (INSERT s (owner (managers w p)) True), Get (SELECT_ALL [NameEq s])]"
    by simp
  then show "trace w2 =
      trace w @ [Exec (INSERT s (owner (managers w p)) True), Get (SELECT_ALL [NameEq s])]"
    by (simp add: assms)
qed

theorem Lock_record_vanished_witness:
  "fst (Lock 0 ''job'' 5 (held\<lparr>script := [calm, calm\<lparr>others := [DELETE [NameEq ''job'']]\<rparr>]\<rparr>)) =
     Inl (Errorf ''lock no longer exists'') \<and>
   trace (snd (Lock 0 ''job'' 5 (held\<lparr>script := [calm, calm\<lparr>others := [DELETE [NameEq ''job'']]\<rparr>]\<rparr>))) =
     [Exec (INSERT ''job'' ''B'' True), Get (SELECT_ALL [NameEq ''job''])] \<and>
   fst (Lock 0 ''job'' 5 (held\<lparr>script := [calm, calm\<lparr>fault := Fails (Other ''bad connection'')\<rparr>]\<rparr>)) =
     Inl (Errorf ''unable to fetch existing lock: bad connection'')"
proof -
  let ?gone = "held\<lparr>script := [calm, calm\<lparr>others := [DELETE [NameEq ''job'']]\<rparr>]\<rparr>"
  let ?down = "held\<lparr>script := [calm, calm\<lparr>fault := Fails (Other ''bad connection'')\<rparr>]\<rparr>"
  let ?ins = "INSERT ''job'' ''B'' True"
  let ?sel = "SELECT_ALL [NameEq ''job'']"
  have i1: "db_Exec (INSERT ''job'' (owner (managers ?gone 0)) True) ?gone =
      (Inl (MySQLError 1062 (''Duplicate entry '' @ apos @ ''job'' @ apos @ '' for key '' @ apos @ ''name'' @ apos)),
       snd (db_Exec ?ins ?gone))"
    by (simp add: held_def quiet_def job_of_A_def calm_def duplicate_entry_def store_defs)
  have g1: "db_Get ?sel (snd (db_Exec ?ins ?gone)) =
      (Inl ErrNoRows, snd (db_Get ?sel (snd (db_Exec ?ins ?gone))))"
    by (simp add: held_def quiet_def job_of_A_def calm_def duplicate_entry_def store_defs)
  have i2: "db_Exec (INSERT ''job'' (owner (managers ?down 0)) True) ?down =
      (Inl (MySQLError 1062 (''Duplicate entry '' @ apos @ ''job'' @ apos @ '' for key '' @ apos @ ''name'' @ apos)),
       snd (db_Exec ?ins ?down))"
    by (simp add: held_def quiet_def job_of_A_def calm_def duplicate_entry_def store_defs)
  have g2: "db_Get ?sel (snd (db_Exec ?ins ?down)) =
      (Inl (Errorf ''bad connection''), snd (db_Get ?sel (snd (db_Exec ?ins ?down))))"
    by (simp add: held_def quiet_def job_of_A_def calm_def duplicate_entry_def store_defs)
  from Lock_record_vanished [OF i1 g1, of 5] Lock_record_vanished [OF i2 g2, of 5]
  show ?thesis
    by (simp add: held_def quiet_def)
qed

subsection \<open>The constructor\<close>

text \<open>
  C9, as amended. \<^verbatim>\<open>New\<close> with a nil store returns no manager and the error
  \<^verbatim>\<open>db cannot be nil\<close>; with a store it returns a new manager that holds that store and a
  non-empty owner token (the 36 characters of a UUID), and no error; the managers made
  before are left as they were.
\<close>

theorem New_contract:
  "New u None w = (Inl (Errorf ''db cannot be nil''), w) \<and>
   fst (New u (Some c) w) = Inr (next_manager w) \<and>
   db (managers (snd (New u (Some c) w)) (next_manager w)) = c \<and>
   owner (managers (snd (New u (Some c) w)) (next_manager w)) = UUID_String (generateUUID u) \<and>
   owner (managers (snd (New u (Some c) w)) (next_manager w)) \<noteq> [] \<and>
   length (owner (managers (snd (New u (Some c) w)) (next_manager w))) = 36 \<and>
   (\<forall>a. a \<noteq> next_manager w \<longrightarrow> managers (snd (New u (Some c) w)) a = managers w a)"
proof -
  have "UUID_String (generateUUID u) \<noteq> []"
    using length_UUID_String [of "generateUUID u"] by auto
  then show ?thesis
    by (simp add: New_def length_UUID_String)
qed

theorem New_contract_witness:
  "New demo_uuids None quiet = (Inl (Errorf ''db cannot be nil''), quiet) \<and>
   fst (New demo_uuids (Some 7) quiet) = Inr 1 \<and>
   db (managers (snd (New demo_uuids (Some 7) quiet)) 1) = 7 \<and>
   owner (managers (snd (New demo_uuids (Some 7) quiet)) 1) =
     ''01234567-89ab-cdef-0123-456789abcdef''"
proof -
  have "UUID_String (generateUUID demo_uuids) = ''01234567-89ab-cdef-0123-456789abcdef''"
    by (simp add: generateUUID_def demo_uuids_def UUID_String_def UUID_bytes_def hex_encode_def
        hex_char_def Let_def upt_rec drop_bit_eq_div take_bit_eq_mod)
  moreover have "next_manager quiet = 1"
    by (simp add: quiet_def)
  ultimately show ?thesis
    using New_contract [of demo_uuids quiet 7] by simp
qed

text \<open>
  The text of the error is not \<^verbatim>\<open>store cannot be nil\<close>.
\<close>

theorem New_nil_message_counterexample:
  "fst (New demo_uuids None quiet) = Inl (Errorf ''db cannot be nil'') \<and>
   fst (New demo_uuids None quiet) \<noteq> Inl (Errorf ''store cannot be nil'')"
  by (simp add: New_def)

subsection \<open>The manager is read only\<close>

text \<open>
  C10. No operation of the package writes to a manager: \<^verbatim>\<open>Lock\<close>,
  \<^verbatim>\<open>takeover\<close>, \<^verbatim>\<open>getExistingByName\<close>, \<^verbatim>\<open>Unlock\<close> and
  \<^verbatim>\<open>LastError\<close> leave the memory that holds the managers, and so every owner
  token, as it was. A handle returned by \<^verbatim>\<open>Lock\<close> holds the requested name, the
  requested timeout and the address of the manager it was asked of.
\<close>

theorem manager_read_only:
  "managers (snd (Lock p s t w)) = managers w \<and>
   managers (snd (takeover p s obs force w)) = managers w \<and>
   managers (snd (getExistingByName p s w)) = managers w \<and>
   managers (snd (Unlock l e w)) = managers w \<and>
   managers (snd (Lock_LastError l w)) = managers w \<and>
   (\<forall>h. fst (Lock p s t w) = Inr h \<longrightarrow> h = \<lparr>rl = p, name = s, timeout = t\<rparr>)"
  using Lock_handle [of p s t w] by simp

theorem manager_read_only_witness:
  "fst (Lock 1 ''job'' 5 (snd (New demo_uuids (Some 7) quiet))) =
     Inr \<lparr>rl = 1, name = ''job'', timeout = 5\<rparr> \<and>
   managers (snd (Lock 1 ''job'' 5 (snd (New demo_uuids (Some 7) quiet)))) 1 =
     \<lparr>db = 7, owner = UUID_String (generateUUID demo_uuids)\<rparr>"
proof -
  let ?w = "snd (New demo_uuids (Some 7) quiet)"
  let ?ins = "INSERT ''job'' (owner (managers ?w 1)) True"
  have "db_Exec ?ins ?w = (Inr (Inr 1), snd (db_Exec ?ins ?w))"
    by (simp add: New_def quiet_def store_defs)
  then have "fst (Lock 1 ''job'' 5 ?w) = Inr \<lparr>rl = 1, name = ''job'', timeout = 5\<rparr>"
    by (simp add: Lock_insert_ok)
  moreover have "managers ?w 1 = \<lparr>db = 7, owner = UUID_String (generateUUID demo_uuids)\<rparr>"
    by (simp add: New_def quiet_def)
  ultimately show ?thesis
    using manager_read_only [of 1 "''job''" 5 ?w] by simp
qed



end
